theory Spec2Isabelle
  imports Complex_Main "HOL-Library.Word" "HOL-Library.Stream"
begin

section \<open>The batch sampler of alexnet.ipynb\<close>

text \<open>
  The notebook's original logic is five Python functions: \<open>one_hot\<close>, \<open>get_wnids\<close>,
  \<open>preprocess\<close>, \<open>read_image\<close> and \<open>read_batch\<close>. They call the operating system
  (\<open>os.listdir\<close>, \<open>os.path.exists\<close>, \<open>os.path.join\<close>), the global generator of
  \<open>random\<close>, PIL (\<open>Image.open\<close>, \<open>convert\<close>, \<open>resize\<close>) and numpy (\<open>zeros\<close>,
  \<open>array\<close>, slice assignment, \<open>vstack\<close>). Each library call is modelled by a function
  of the same name; an exception is a value \<open>Inl e\<close>, a loop that does not return is
  the value \<open>None\<close>.
\<close>

subsection \<open>Exceptions and Python subscripts\<close>

datatype error =
    IndexError
  | ValueError
  | FileNotFoundError
  | NotADirectoryError
  | IsADirectoryError
  | PermissionError
  | UnidentifiedImageError

text \<open>\<open>xs[i]\<close> on a Python list: a negative subscript counts from the end, a
  subscript out of range raises \<open>IndexError\<close>.\<close>

definition subscript :: "'a list \<Rightarrow> int \<Rightarrow> error + 'a" where
  "subscript xs i =
     (if 0 \<le> i \<and> i < int (length xs) then Inr (xs ! nat i)
      else if i < 0 \<and> - int (length xs) \<le> i then Inr (xs ! nat (int (length xs) + i))
      else Inl IndexError)"

subsection \<open>numpy arrays\<close>

text \<open>An array is its shape and its elements in row-major (C) order.\<close>

record 'a ndarray =
  shape :: "nat list"
  data :: "'a list"

type_synonym byte = "8 word"
type_synonym int32 = "32 word"

text \<open>\<open>np.zeros(n)\<close>: a one-dimensional array of \<open>float64\<close> zeros.\<close>

definition np_zeros :: "nat \<Rightarrow> real ndarray" where
  "np_zeros n = \<lparr>shape = [n], data = replicate n 0\<rparr>"

text \<open>\<open>vec[index] = v\<close> on a one-dimensional array.\<close>

definition setitem :: "'a ndarray \<Rightarrow> int \<Rightarrow> 'a \<Rightarrow> error + 'a ndarray" where
  "setitem vec index v =
     (if 0 \<le> index \<and> index < int (length (data vec))
      then Inr (vec\<lparr>data := (data vec)[nat index := v]\<rparr>)
      else if index < 0 \<and> - int (length (data vec)) \<le> index
      then Inr (vec\<lparr>data := (data vec)[nat (int (length (data vec)) + index) := v]\<rparr>)
      else Inl IndexError)"

text \<open>The element of a three-dimensional array at \<open>[y, x, c]\<close>.\<close>

definition at3 :: "'a ndarray \<Rightarrow> nat \<Rightarrow> nat \<Rightarrow> nat \<Rightarrow> 'a" where
  "at3 a y x c = data a ! ((y * (shape a ! 1) + x) * (shape a ! 2) + c)"

text \<open>\<open>np.atleast_2d\<close> and \<open>np.vstack\<close>: every array gets at least two axes, then the
  arrays are concatenated along the first one. An empty sequence and arrays whose
  trailing axes differ raise \<open>ValueError\<close>.\<close>

definition atleast_2d :: "'a ndarray \<Rightarrow> 'a ndarray" where
  "atleast_2d a =
     (case shape a of
        [] \<Rightarrow> a\<lparr>shape := [1, 1]\<rparr>
      | [n] \<Rightarrow> a\<lparr>shape := [1, n]\<rparr>
      | _ \<Rightarrow> a)"

definition concatenate :: "'a ndarray list \<Rightarrow> error + 'a ndarray" where
  "concatenate arrs =
     (if arrs = [] then Inl ValueError
      else if \<exists>a \<in> set arrs. shape a = [] \<or> tl (shape a) \<noteq> tl (shape (hd arrs))
      then Inl ValueError
      else Inr \<lparr>shape = sum_list (map (\<lambda>a. hd (shape a)) arrs) # tl (shape (hd arrs)),
                data = concat (map data arrs)\<rparr>)"

definition np_vstack :: "'a ndarray list \<Rightarrow> error + 'a ndarray" where
  "np_vstack tup = concatenate (map atleast_2d tup)"

subsection \<open>\<open>one_hot\<close>\<close>

text \<open>
  \<^verbatim>\<open>
  def one_hot(index):
      vec = np.zeros(200)
      vec[index] = 1.0
      return vec
  \<close>
\<close>

definition one_hot :: "int \<Rightarrow> error + real ndarray" where
  "one_hot index = (let vec = np_zeros 200 in setitem vec index 1)"

subsection \<open>The file system, the generator and the state of a run\<close>

type_synonym path = string

text \<open>\<open>os.path.join(a, b)\<close> of \<open>posixpath\<close>: an absolute \<open>b\<close> replaces \<open>a\<close>, otherwise
  the two are joined by one separator.\<close>

definition os_path_join :: "path \<Rightarrow> path \<Rightarrow> path" where
  "os_path_join a b =
     (if b \<noteq> [] \<and> hd b = CHR ''/'' then b
      else if a = [] \<or> last a = CHR ''/'' then a @ b
      else a @ ''/'' @ b)"

text \<open>A PIL image in mode \<open>RGB\<close>: \<open>imsize\<close> is its \<open>size\<close>, (width, height), \<open>pixels\<close> are the
  pixels row by row (\<open>getdata()\<close>).\<close>

type_synonym rgb = "byte \<times> byte \<times> byte"

record rgb_image =
  imsize :: "nat \<times> nat"
  pixels :: "rgb list"

text \<open>What a path names. A directory holds its entries in the order in which
  \<open>os.listdir\<close> returns them. An image file is stored with a number of bands (1 for a
  grayscale image, 3 for RGB, 4 for RGBA or CMYK) and holds what
  \<open>Image.open(path).convert('RGB')\<close> yields for it: the conversion keeps the size and
  always gives three bands. \<open>Unreadable\<close> is an entry whose permissions deny access.\<close>

datatype node =
    Dir "string list"
  | ImageFile nat rgb_image
  | OtherFile
  | Unreadable

type_synonym filesystem = "path \<Rightarrow> node option"

datatype syscall = Listdir path | Exists path | Open path

text \<open>The state a run threads through: the generator of \<open>random\<close>, as the stream of
  its future raw outputs, and the file-system calls made so far. The code never
  writes to the file system, so the file system is a parameter.\<close>

record state =
  rng :: "nat stream"
  calls :: "syscall list"

definition os_listdir :: "filesystem \<Rightarrow> path \<Rightarrow> state \<Rightarrow> (error + string list) \<times> state" where
  "os_listdir fs p s =
     ((case fs p of
         None \<Rightarrow> Inl FileNotFoundError
       | Some (Dir names) \<Rightarrow> Inr names
       | Some Unreadable \<Rightarrow> Inl PermissionError
       | Some _ \<Rightarrow> Inl NotADirectoryError),
      s\<lparr>calls := calls s @ [Listdir p]\<rparr>)"

definition os_path_exists :: "filesystem \<Rightarrow> path \<Rightarrow> state \<Rightarrow> bool \<times> state" where
  "os_path_exists fs p s = (fs p \<noteq> None, s\<lparr>calls := calls s @ [Exists p]\<rparr>)"

text \<open>\<open>Image.open(p).convert('RGB')\<close>: the image of the file in mode \<open>RGB\<close>, or the
  exception of \<open>Image.open\<close>.\<close>

definition image_open_rgb :: "filesystem \<Rightarrow> path \<Rightarrow> state \<Rightarrow> (error + rgb_image) \<times> state" where
  "image_open_rgb fs p s =
     ((case fs p of
         None \<Rightarrow> Inl FileNotFoundError
       | Some (ImageFile bands img) \<Rightarrow> Inr img
       | Some (Dir _) \<Rightarrow> Inl IsADirectoryError
       | Some Unreadable \<Rightarrow> Inl PermissionError
       | Some OtherFile \<Rightarrow> Inl UnidentifiedImageError),
      s\<lparr>calls := calls s @ [Open p]\<rparr>)"

text \<open>One draw below \<open>n\<close> consumes one raw output of the generator.\<close>

definition randbelow :: "nat \<Rightarrow> state \<Rightarrow> nat \<times> state" where
  "randbelow n s = (shd (rng s) mod n, s\<lparr>rng := stl (rng s)\<rparr>)"

text \<open>\<open>random.randint(a, b)\<close>: an integer of \<open>[a, b]\<close>; \<open>ValueError\<close> on an empty range.\<close>

definition random_randint :: "int \<Rightarrow> int \<Rightarrow> state \<Rightarrow> (error + int) \<times> state" where
  "random_randint a b s =
     (if b < a then (Inl ValueError, s)
      else (let (k, s') = randbelow (nat (b - a + 1)) s in (Inr (a + int k), s')))"

text \<open>\<open>random.choice(seq)\<close>: \<open>IndexError\<close> on an empty sequence.\<close>

definition random_choice :: "'a list \<Rightarrow> state \<Rightarrow> (error + 'a) \<times> state" where
  "random_choice seq s =
     (if seq = [] then (Inl IndexError, s)
      else (let (k, s') = randbelow (length seq) s in (Inr (seq ! k), s')))"

subsection \<open>\<open>get_wnids\<close>\<close>

text \<open>
  \<^verbatim>\<open>
  def get_wnids(folder_path):
      wnids = os.listdir(folder_path)
      return wnids
  \<close>
\<close>

definition get_wnids :: "filesystem \<Rightarrow> path \<Rightarrow> state \<Rightarrow> (error + string list) \<times> state" where
  "get_wnids fs folder_path s = os_listdir fs folder_path s"

subsection \<open>\<open>preprocess\<close>\<close>

text \<open>\<open>image.resize(size)\<close>: an image of the requested size, each pixel computed by
  the resampling filter of the installed PIL from the source image, the requested
  size and the pixel's coordinates \<open>(x, y)\<close>. The filter is a parameter.\<close>

type_synonym resample = "rgb_image \<Rightarrow> nat \<times> nat \<Rightarrow> nat \<times> nat \<Rightarrow> rgb"

definition resize :: "resample \<Rightarrow> rgb_image \<Rightarrow> nat \<times> nat \<Rightarrow> rgb_image" where
  "resize rs im sz =
     \<lparr>imsize = sz,
      pixels = concat (map (\<lambda>y. map (\<lambda>x. rs im sz (x, y)) [0..<fst sz]) [0..<snd sz])\<rparr>"

text \<open>A nearest-neighbour filter, the kind the notebook's heading names, for the
  examples: the pixel at \<open>(x, y)\<close> is the source pixel under the centre of the target
  pixel, in exact arithmetic. The filter of an installed PIL may differ from it (at
  pixel boundaries, or by another default); every property below is proved for all
  filters.\<close>

definition nearest :: resample where
  "nearest im sz xy =
     (let (w, h) = imsize im; (W, H) = sz; (x, y) = xy;
          sx = ((2 * x + 1) * w) div (2 * W);
          sy = ((2 * y + 1) * h) div (2 * H)
      in pixels im ! (sy * w + sx))"

definition getpixel :: "rgb_image \<Rightarrow> nat \<times> nat \<Rightarrow> rgb" where
  "getpixel im xy = (case xy of (x, y) \<Rightarrow> pixels im ! (y * fst (imsize im) + x))"

definition band :: "nat \<Rightarrow> rgb \<Rightarrow> byte" where
  "band c p = (case p of (r, g, b) \<Rightarrow> [r, g, b] ! c)"

text \<open>\<open>np.array(img)\<close> of an RGB image: shape (height, width, 3), dtype \<open>uint8\<close>;
  \<open>np.array(img, np.int32)\<close> converts every element to \<open>int32\<close>.\<close>

definition np_array :: "rgb_image \<Rightarrow> byte ndarray" where
  "np_array img =
     \<lparr>shape = [snd (imsize img), fst (imsize img), 3],
      data = concat (map (\<lambda>p. case p of (r, g, b) \<Rightarrow> [r, g, b]) (pixels img))\<rparr>"

definition np_array_int32 :: "rgb_image \<Rightarrow> int32 ndarray" where
  "np_array_int32 img =
     \<lparr>shape = shape (np_array img), data = map ucast (data (np_array img))\<rparr>"

text \<open>\<open>image[:, :, i] -= m\<close> in \<open>int32\<close>: fewer than three axes, or \<open>i\<close> outside the
  third axis, raise \<open>IndexError\<close>; the subtraction wraps.\<close>

definition isub_channel :: "int32 ndarray \<Rightarrow> int \<Rightarrow> int32 \<Rightarrow> error + int32 ndarray" where
  "isub_channel im i m =
     (if length (shape im) < 3 then Inl IndexError
      else
        (let c = shape im ! 2;
             stride = prod_list (drop 3 (shape im));
             j = (if i < 0 then i + int c else i)
         in if 0 \<le> j \<and> j < int c
            then Inr (im\<lparr>data :=
                   map (\<lambda>k. if (k div stride) mod c = nat j then data im ! k - m
                            else data im ! k)
                       [0..<length (data im)]\<rparr>)
            else Inl IndexError))"

text \<open>
  \<^verbatim>\<open>
  def preprocess(image):
      means = np.array([142, 143, 145], np.int32)
      image = np.array(image.resize((224, 224)), np.int32)
      for i in range(3):
          image[:,:,i] -= means[i]
      return image
  \<close>
  \<open>sub_means\<close> is the \<open>for\<close> loop, over the values of \<open>i\<close> that remain.
\<close>

fun sub_means :: "int32 list \<Rightarrow> int list \<Rightarrow> int32 ndarray \<Rightarrow> error + int32 ndarray" where
  "sub_means means [] im = Inr im"
| "sub_means means (i # is) im =
     (case subscript means i of
        Inl e \<Rightarrow> Inl e
      | Inr m \<Rightarrow>
          (case isub_channel im i m of
             Inl e \<Rightarrow> Inl e
           | Inr im' \<Rightarrow> sub_means means is im'))"

definition preprocess :: "resample \<Rightarrow> rgb_image \<Rightarrow> error + int32 ndarray" where
  "preprocess rs im =
     (let means = [142, 143, 145];
          im' = np_array_int32 (resize rs im (224, 224))
      in sub_means means [0, 1, 2] im')"

subsection \<open>\<open>read_image\<close>\<close>

text \<open>
  \<^verbatim>\<open>
  def read_image(images_folder):
      flag = False
      while flag is False:
          image_path = os.path.join(images_folder, random.choice(os.listdir(images_folder)))
          img = Image.open(image_path).convert('RGB')
          if np.array(img).shape == (64, 64, 3):  # ignore grayscale images
              flag = True
      img_array = preprocess(img)
      return img_array
  \<close>
  \<open>read_image_loop\<close> is the \<open>while\<close> loop; it returns the accepted image.
\<close>

partial_function (option) read_image_loop ::
  "filesystem \<Rightarrow> path \<Rightarrow> state \<Rightarrow> ((error + rgb_image) \<times> state) option" where
  "read_image_loop fs images_folder s =
     (case os_listdir fs images_folder s of
        (Inl e, s1) \<Rightarrow> Some (Inl e, s1)
      | (Inr names, s1) \<Rightarrow>
          (case random_choice names s1 of
             (Inl e, s2) \<Rightarrow> Some (Inl e, s2)
           | (Inr name, s2) \<Rightarrow>
               (case image_open_rgb fs (os_path_join images_folder name) s2 of
                  (Inl e, s3) \<Rightarrow> Some (Inl e, s3)
                | (Inr img, s3) \<Rightarrow>
                    if shape (np_array img) = [64, 64, 3] then Some (Inr img, s3)
                    else read_image_loop fs images_folder s3)))"

definition read_image ::
  "resample \<Rightarrow> filesystem \<Rightarrow> path \<Rightarrow> state \<Rightarrow> ((error + int32 ndarray) \<times> state) option" where
  "read_image rs fs images_folder s =
     (case read_image_loop fs images_folder s of
        None \<Rightarrow> None
      | Some (Inl e, s') \<Rightarrow> Some (Inl e, s')
      | Some (Inr img, s') \<Rightarrow> Some (preprocess rs img, s'))"

subsection \<open>\<open>read_batch\<close>\<close>

text \<open>
  \<^verbatim>\<open>
  def read_batch(batch_size, images_source, wnid_labels):
      batch_images = []
      batch_labels = []
      for i in range(batch_size):
          class_index = random.randint(0, 199)
          flag = False
          while flag is False:
              folder = os.path.join(wnid_labels[class_index], "images")
              if os.path.exists(os.path.join(images_source,folder)):
                  flag = True
          batch_images.append(read_image(os.path.join(images_source, folder)))
          batch_labels.append(one_hot(class_index))
      np.vstack(batch_images)
      np.vstack(batch_labels)
      return batch_images, batch_labels
  \<close>
  \<open>folder_loop\<close> is the inner \<open>while\<close> loop and returns \<open>folder\<close>; \<open>batch_step\<close> is
  the body of the \<open>for\<close> loop and returns the image and the label it appends;
  \<open>batch_loop\<close> is the \<open>for\<close> loop, over the number of rounds that remain.
\<close>

partial_function (option) folder_loop ::
  "filesystem \<Rightarrow> path \<Rightarrow> string list \<Rightarrow> int \<Rightarrow> state \<Rightarrow> ((error + path) \<times> state) option" where
  "folder_loop fs images_source wnid_labels class_index s =
     (case subscript wnid_labels class_index of
        Inl e \<Rightarrow> Some (Inl e, s)
      | Inr wnid \<Rightarrow>
          (case os_path_exists fs (os_path_join images_source (os_path_join wnid ''images'')) s of
             (found, s1) \<Rightarrow>
               if found then Some (Inr (os_path_join wnid ''images''), s1)
               else folder_loop fs images_source wnid_labels class_index s1))"

definition batch_step ::
  "resample \<Rightarrow> filesystem \<Rightarrow> path \<Rightarrow> string list \<Rightarrow> state
     \<Rightarrow> ((error + int32 ndarray \<times> real ndarray) \<times> state) option" where
  "batch_step rs fs images_source wnid_labels s =
     (case random_randint 0 199 s of
        (Inl e, s1) \<Rightarrow> Some (Inl e, s1)
      | (Inr class_index, s1) \<Rightarrow>
          (case folder_loop fs images_source wnid_labels class_index s1 of
             None \<Rightarrow> None
           | Some (Inl e, s2) \<Rightarrow> Some (Inl e, s2)
           | Some (Inr folder, s2) \<Rightarrow>
               (case read_image rs fs (os_path_join images_source folder) s2 of
                  None \<Rightarrow> None
                | Some (Inl e, s3) \<Rightarrow> Some (Inl e, s3)
                | Some (Inr img_array, s3) \<Rightarrow>
                    (case one_hot class_index of
                       Inl e \<Rightarrow> Some (Inl e, s3)
                     | Inr vec \<Rightarrow> Some (Inr (img_array, vec), s3)))))"

type_synonym batch = "int32 ndarray list \<times> real ndarray list"

fun batch_loop ::
  "resample \<Rightarrow> filesystem \<Rightarrow> path \<Rightarrow> string list \<Rightarrow> nat \<Rightarrow> batch \<Rightarrow> state
     \<Rightarrow> ((error + batch) \<times> state) option" where
  "batch_loop rs fs images_source wnid_labels 0 acc s = Some (Inr acc, s)"
| "batch_loop rs fs images_source wnid_labels (Suc n) acc s =
     (case batch_step rs fs images_source wnid_labels s of
        None \<Rightarrow> None
      | Some (Inl e, s') \<Rightarrow> Some (Inl e, s')
      | Some (Inr (img_array, vec), s') \<Rightarrow>
          batch_loop rs fs images_source wnid_labels n
            (fst acc @ [img_array], snd acc @ [vec]) s')"

text \<open>\<open>range(batch_size)\<close> is empty for a \<open>batch_size\<close> below 1. The stacked arrays
  are dropped; only an exception of \<open>np.vstack\<close> is seen.\<close>

definition read_batch ::
  "resample \<Rightarrow> filesystem \<Rightarrow> int \<Rightarrow> path \<Rightarrow> string list \<Rightarrow> state
     \<Rightarrow> ((error + batch) \<times> state) option" where
  "read_batch rs fs batch_size images_source wnid_labels s =
     (case batch_loop rs fs images_source wnid_labels (nat batch_size) ([], []) s of
        None \<Rightarrow> None
      | Some (Inl e, s') \<Rightarrow> Some (Inl e, s')
      | Some (Inr (batch_images, batch_labels), s') \<Rightarrow>
          (case np_vstack batch_images of
             Inl e \<Rightarrow> Some (Inl e, s')
           | Inr _ \<Rightarrow>
               (case np_vstack batch_labels of
                  Inl e \<Rightarrow> Some (Inl e, s')
                | Inr _ \<Rightarrow> Some (Inr (batch_images, batch_labels), s'))))"

subsection \<open>What the functions compute, in closed form\<close>

text \<open>The array of the resized pixels with the channel means subtracted, and the
  vector with a single one. \<open>preprocess\<close> and \<open>one_hot\<close> are proved to return them.\<close>

definition mean_subtracted :: "resample \<Rightarrow> rgb_image \<Rightarrow> int32 ndarray" where
  "mean_subtracted rs img =
     \<lparr>shape = [224, 224, 3],
      data = concat (map (\<lambda>p. [ucast (band 0 p) - 142, ucast (band 1 p) - 143,
                                 ucast (band 2 p) - 145])
                         (pixels (resize rs img (224, 224))))\<rparr>"

definition unit_vector :: "nat \<Rightarrow> real ndarray" where
  "unit_vector i = \<lparr>shape = [200], data = (replicate 200 0)[i := 1]\<rparr>"

subsection \<open>Two runs side by side\<close>

text \<open>Two file systems hold the same class folders when, for every class identifier,
  they agree on the image folder of the class and on every entry its listing names.
  What a caller observes of a run is its value or exception and the generator it
  leaves behind; a run that does not return is observed as \<open>None\<close>.\<close>

definition same_class_folders :: "filesystem \<Rightarrow> filesystem \<Rightarrow> path \<Rightarrow> string list \<Rightarrow> bool" where
  "same_class_folders fs1 fs2 images_source wnid_labels =
     (\<forall>wnid \<in> set wnid_labels.
        let d = os_path_join images_source (os_path_join wnid ''images'')
        in fs1 d = fs2 d \<and>
           (case fs1 d of
              Some (Dir names) \<Rightarrow>
                \<forall>name \<in> set names. fs1 (os_path_join d name) = fs2 (os_path_join d name)
            | _ \<Rightarrow> True))"

definition observed :: "('a \<times> state) option \<Rightarrow> ('a \<times> nat stream) option" where
  "observed r = map_option (\<lambda>(x, s). (x, rng s)) r"

subsection \<open>Example inputs\<close>

text \<open>An image of one colour, a fresh state, and the directory of the scenario of the
  specification: three class folders, each holding one 64 x 64 image.\<close>

definition flat_image :: "nat \<times> nat \<Rightarrow> rgb \<Rightarrow> rgb_image" where
  "flat_image sz p = \<lparr>imsize = sz, pixels = replicate (fst sz * snd sz) p\<rparr>"

definition start :: "nat stream \<Rightarrow> state" where
  "start g = \<lparr>rng = g, calls = []\<rparr>"

definition fs_abc :: filesystem where
  "fs_abc = map_of
     [(''root'', Dir [''a'', ''b'', ''c'']),
      (''root/a'', Dir [''images'']),
      (''root/a/images'', Dir [''a_0.JPEG'']),
      (''root/a/images/a_0.JPEG'', ImageFile 3 (flat_image (64, 64) (200, 100, 0))),
      (''root/b'', Dir [''images'']),
      (''root/b/images'', Dir [''b_0.JPEG'']),
      (''root/b/images/b_0.JPEG'', ImageFile 3 (flat_image (64, 64) (0, 0, 0))),
      (''root/c'', Dir [''images'']),
      (''root/c/images'', Dir [''c_0.JPEG'']),
      (''root/c/images/c_0.JPEG'', ImageFile 3 (flat_image (64, 64) (255, 255, 255)))]"

text \<open>A directory of irregular class folders: \<open>a\<close> with an empty image folder,
  \<open>b\<close> without an image folder, \<open>c\<close> with one 32 x 32 image, \<open>d\<close> with a 32 x 32 and
  a 64 x 64 image, \<open>e\<close> with one grayscale 64 x 64 image.\<close>

definition fs_odd :: filesystem where
  "fs_odd = map_of
     [(''root'', Dir [''a'', ''b'', ''c'', ''d'', ''e'']),
      (''root/a'', Dir [''images'']),
      (''root/a/images'', Dir []),
      (''root/b'', Dir []),
      (''root/c'', Dir [''images'']),
      (''root/c/images'', Dir [''s.png'']),
      (''root/c/images/s.png'', ImageFile 3 (flat_image (32, 32) (9, 9, 9))),
      (''root/d'', Dir [''images'']),
      (''root/d/images'', Dir [''s.png'', ''ok.png'']),
      (''root/d/images/s.png'', ImageFile 3 (flat_image (32, 32) (9, 9, 9))),
      (''root/d/images/ok.png'', ImageFile 3 (flat_image (64, 64) (1, 2, 3))),
      (''root/e'', Dir [''images'']),
      (''root/e/images'', Dir [''g.JPEG'']),
      (''root/e/images/g.JPEG'', ImageFile 1 (flat_image (64, 64) (7, 7, 7)))]"

section \<open>Properties\<close>

subsection \<open>Lists in row-major order\<close>

lemma replicate_update_split:
  "i < n \<Longrightarrow> (replicate n x)[i := y] = replicate i x @ y # replicate (n - Suc i) x"
  by (induction n arbitrary: i) (auto simp: Suc_diff_le split: nat.splits)

lemma concat_triples_length:
  "length (concat (map (\<lambda>p. [f p, g p, h p]) ps)) = 3 * length ps"
  by (induction ps) auto

lemma concat_triples_nth:
  "k < 3 * length ps \<Longrightarrow>
     concat (map (\<lambda>p. [f p, g p, h p]) ps) ! k
       = [f (ps ! (k div 3)), g (ps ! (k div 3)), h (ps ! (k div 3))] ! (k mod 3)"
proof (induction ps arbitrary: k)
  case Nil
  then show ?case by simp
next
  case (Cons p ps)
  show ?case
  proof (cases "k < 3")
    case True
    then have "k = 0 \<or> k = 1 \<or> k = 2" by arith
    then show ?thesis by auto
  next
    case False
    then obtain j where k: "k = j + 3" by (metis add.commute le_Suc_ex not_less)
    with Cons.prems have "j < 3 * length ps" by simp
    from Cons.IH [OF this] show ?thesis by (simp add: k)
  qed
qed

lemma concat_rows_length:
  "length (concat (map (\<lambda>y. map (f y) [0..<W]) [0..<H])) = H * W"
  by (induction H) auto

lemma concat_rows_nth:
  "x < W \<Longrightarrow> y < H \<Longrightarrow> concat (map (\<lambda>y. map (f y) [0..<W]) [0..<H]) ! (y * W + x) = f y x"
proof (induction H)
  case 0
  then show ?case by simp
next
  case (Suc H)
  show ?case
  proof (cases "y < H")
    case True
    then have "Suc y \<le> H" by simp
    then have "Suc y * W \<le> H * W" by (rule mult_le_mono1)
    with Suc.prems(1) have "y * W + x < H * W" by simp
    with Suc True show ?thesis by (simp add: nth_append concat_rows_length)
  next
    case False
    with Suc.prems have "y = H" by simp
    with Suc.prems show ?thesis by (simp add: nth_append concat_rows_length)
  qed
qed

subsection \<open>Pixels and arrays\<close>

lemma pixels_resize_length: "length (pixels (resize rs img (W, H))) = H * W"
  by (simp add: resize_def concat_rows_length)

lemma getpixel_resize:
  "x < W \<Longrightarrow> y < H \<Longrightarrow> getpixel (resize rs img (W, H)) (x, y) = rs img (W, H) (x, y)"
  by (simp add: getpixel_def resize_def concat_rows_nth)

lemma rgb_bands: "(case p of (r, g, b) \<Rightarrow> [r, g, b]) = [band 0 p, band 1 p, band 2 p]"
  by (cases p) (simp add: band_def)

lemma np_array_int32_eq:
  "np_array_int32 img =
     \<lparr>shape = [snd (imsize img), fst (imsize img), 3],
      data = concat (map (\<lambda>p. [ucast (band 0 p), ucast (band 1 p), ucast (band 2 p)])
                         (pixels img))\<rparr>"
  by (simp add: np_array_int32_def np_array_def rgb_bands map_concat comp_def)

lemma isub_channel_rgb:
  "shape im = [h, w, 3] \<Longrightarrow> j < 3 \<Longrightarrow>
     isub_channel im (int j) m =
       Inr (im\<lparr>data := map (\<lambda>k. if k mod 3 = j then data im ! k - m else data im ! k)
                           [0..<length (data im)]\<rparr>)"
  by (simp add: isub_channel_def)

lemma three_passes:
  fixes d0 :: "int32 list" and m0 m1 m2 :: int32 and n :: nat
  assumes "length d0 = n"
  defines "d1 \<equiv> map (\<lambda>k. if k mod 3 = 0 then d0 ! k - m0 else d0 ! k) [0..<n]"
  defines "d2 \<equiv> map (\<lambda>k. if k mod 3 = 1 then d1 ! k - m1 else d1 ! k) [0..<n]"
  shows "map (\<lambda>k. if k mod 3 = 2 then d2 ! k - m2 else d2 ! k) [0..<n]
           = map (\<lambda>k. d0 ! k - [m0, m1, m2] ! (k mod 3)) [0..<n]"
proof (rule nth_equalityI)
  show "length (map (\<lambda>k. if k mod 3 = 2 then d2 ! k - m2 else d2 ! k) [0..<n])
          = length (map (\<lambda>k. d0 ! k - [m0, m1, m2] ! (k mod 3)) [0..<n])"
    by simp
next
  fix i
  assume "i < length (map (\<lambda>k. if k mod 3 = 2 then d2 ! k - m2 else d2 ! k) [0..<n])"
  then have i: "i < n" by simp
  have "i mod 3 = 0 \<or> i mod 3 = 1 \<or> i mod 3 = 2" by arith
  then show "map (\<lambda>k. if k mod 3 = 2 then d2 ! k - m2 else d2 ! k) [0..<n] ! i
          = map (\<lambda>k. d0 ! k - [m0, m1, m2] ! (k mod 3)) [0..<n] ! i"
    using i by (auto simp: d1_def d2_def)
qed

lemma preprocess_data:
  "preprocess rs img =
     Inr \<lparr>shape = [224, 224, 3],
          data = map (\<lambda>k. data (np_array_int32 (resize rs img (224, 224))) ! k
                            - [142, 143, 145] ! (k mod 3))
                     [0..<length (data (np_array_int32 (resize rs img (224, 224))))]\<rparr>"
proof -
  define a0 where "a0 = np_array_int32 (resize rs img (224, 224))"
  define n where "n = length (data a0)"
  define d1 where "d1 = map (\<lambda>k. if k mod 3 = 0 then data a0 ! k - 142 else data a0 ! k) [0..<n]"
  define d2 where "d2 = map (\<lambda>k. if k mod 3 = 1 then d1 ! k - 143 else d1 ! k) [0..<n]"
  define d3 where "d3 = map (\<lambda>k. if k mod 3 = 2 then d2 ! k - 145 else d2 ! k) [0..<n]"
  have sh: "shape a0 = [224, 224, 3]"
    by (simp add: a0_def np_array_int32_eq resize_def)
  have s1: "isub_channel a0 0 142 = Inr (a0\<lparr>data := d1\<rparr>)"
    using isub_channel_rgb [OF sh, of 0 142] by (simp add: d1_def n_def)
  have s2: "isub_channel (a0\<lparr>data := d1\<rparr>) 1 143 = Inr (a0\<lparr>data := d2\<rparr>)"
    using isub_channel_rgb [of "a0\<lparr>data := d1\<rparr>" 224 224 1 143] sh
    by (simp add: d2_def d1_def)
  have s3: "isub_channel (a0\<lparr>data := d2\<rparr>) 2 145 = Inr (a0\<lparr>data := d3\<rparr>)"
    using isub_channel_rgb [of "a0\<lparr>data := d2\<rparr>" 224 224 2 145] sh
    by (simp add: d3_def d2_def)
  have "preprocess rs img = Inr (a0\<lparr>data := d3\<rparr>)"
    by (simp add: preprocess_def Let_def subscript_def a0_def [symmetric] s1 s2 s3)
  moreover have "d3 = map (\<lambda>k. data a0 ! k - [142, 143, 145] ! (k mod 3)) [0..<n]"
    unfolding d3_def d2_def d1_def by (rule three_passes) (simp add: n_def)
  moreover have "a0\<lparr>data := d3\<rparr> = \<lparr>shape = [224, 224, 3], data = d3\<rparr>"
    using sh by (cases a0) simp
  ultimately show ?thesis by (simp add: a0_def n_def)
qed

lemma preprocess_eq: "preprocess rs img = Inr (mean_subtracted rs img)"
proof -
  let ?ps = "pixels (resize rs img (224, 224))"
  let ?d0 = "data (np_array_int32 (resize rs img (224, 224)))"
  have len: "length ?d0 = 3 * length ?ps"
    by (simp add: np_array_int32_eq concat_triples_length)
  have "map (\<lambda>k. ?d0 ! k - [142, 143, 145] ! (k mod 3)) [0..<length ?d0]
          = data (mean_subtracted rs img)"
  proof (rule nth_equalityI)
    show "length (map (\<lambda>k. ?d0 ! k - [142, 143, 145] ! (k mod 3)) [0..<length ?d0])
            = length (data (mean_subtracted rs img))"
      by (simp add: len mean_subtracted_def concat_triples_length)
  next
    fix i
    assume "i < length (map (\<lambda>k. ?d0 ! k - [142, 143, 145] ! (k mod 3)) [0..<length ?d0])"
    then have i: "i < 3 * length ?ps" by (simp add: len)
    have m: "i mod 3 = 0 \<or> i mod 3 = 1 \<or> i mod 3 = 2" by arith
    have "?d0 ! i = [ucast (band 0 (?ps ! (i div 3))), ucast (band 1 (?ps ! (i div 3))),
                      ucast (band 2 (?ps ! (i div 3)))] ! (i mod 3)"
      using concat_triples_nth [OF i] by (simp add: np_array_int32_eq)
    moreover have "data (mean_subtracted rs img) ! i =
        [ucast (band 0 (?ps ! (i div 3))) - 142, ucast (band 1 (?ps ! (i div 3))) - 143,
         ucast (band 2 (?ps ! (i div 3))) - 145] ! (i mod 3)"
      using concat_triples_nth [OF i] by (simp add: mean_subtracted_def)
    ultimately show "map (\<lambda>k. ?d0 ! k - [142, 143, 145] ! (k mod 3)) [0..<length ?d0] ! i
            = data (mean_subtracted rs img) ! i"
      using m i len by auto
  qed
  then show ?thesis by (simp add: preprocess_data mean_subtracted_def)
qed

lemma sint_sub_mean:
  fixes b :: byte
  assumes "0 \<le> m" "m \<le> 145"
  shows "sint ((ucast b :: int32) - word_of_int m) = uint b - m"
proof -
  have ub: "uint b < 256" using uint_bounded [of b] by simp
  have lb: "0 \<le> uint b" by simp
  have "(ucast b :: int32) - word_of_int m = word_of_int (uint b - m)"
    by (simp only: ucast_eq wi_hom_sub)
  moreover have "sint (word_of_int (uint b - m) :: int32) = signed_take_bit 31 (uint b - m)"
    by (simp only: sint_sbintrunc') simp
  moreover have "signed_take_bit (31::nat) (uint b - m) = uint b - m"
  proof (rule signed_take_bit_int_eq_self)
    have p: "(2::int) ^ 31 = 2147483648" by simp
    show "- (2 ^ 31) \<le> uint b - m" unfolding p using lb assms by linarith
    show "uint b - m < 2 ^ 31" unfolding p using ub assms by linarith
  qed
  ultimately show ?thesis by (simp only:)
qed

lemma at3_mean_subtracted:
  assumes "y < 224" "x < 224" "c < 3"
  shows "at3 (mean_subtracted rs img) y x c =
           ucast (band c (rs img (224, 224) (x, y))) - [142, 143, 145] ! c"
proof -
  let ?ps = "pixels (resize rs img (224, 224))"
  let ?k = "(y * 224 + x) * 3 + c"
  let ?p = "rs img (224, 224) (x, y)"
  have "Suc y * 224 \<le> 224 * 224" using assms(1) by simp
  then have yx: "y * 224 + x < 224 * 224" using assms(2) by simp
  then have k: "?k < 3 * length ?ps" using assms(3) by (simp add: pixels_resize_length)
  have qd: "(q * 3 + c) div 3 = q" and qm: "(q * 3 + c) mod 3 = c" for q
    using assms(3) by simp_all
  have kd: "?k div 3 = y * 224 + x" and km: "?k mod 3 = c"
    by (rule qd, rule qm)
  have px: "?ps ! (y * 224 + x) = ?p"
    using getpixel_resize [of x 224 y 224 rs img] assms
    by (simp only: getpixel_def resize_def rgb_image.select_convs fst_conv case_prod_conv)
  have sh: "shape (mean_subtracted rs img) ! 1 = 224" "shape (mean_subtracted rs img) ! 2 = 3"
    by (simp_all add: mean_subtracted_def)
  have "at3 (mean_subtracted rs img) y x c = data (mean_subtracted rs img) ! ?k"
    by (simp only: at3_def sh)
  also have "\<dots> = [ucast (band 0 (?ps ! (?k div 3))) - 142, ucast (band 1 (?ps ! (?k div 3))) - 143,
                    ucast (band 2 (?ps ! (?k div 3))) - 145] ! (?k mod 3)"
    using concat_triples_nth [OF k, of "\<lambda>p. ucast (band 0 p) - 142" "\<lambda>p. ucast (band 1 p) - 143"
        "\<lambda>p. ucast (band 2 p) - 145"]
    by (simp only: mean_subtracted_def ndarray.select_convs)
  also have "\<dots> = [ucast (band 0 ?p) - 142, ucast (band 1 ?p) - 143, ucast (band 2 ?p) - 145] ! c"
    by (simp only: kd km px)
  also have "\<dots> = ucast (band c ?p) - [142, 143, 145] ! c"
  proof -
    have "c = 0 \<or> c = 1 \<or> c = 2" using assms(3) by arith
    then show ?thesis by auto
  qed
  finally show ?thesis .
qed

lemma one_hot_eq: "i < 200 \<Longrightarrow> one_hot (int i) = Inr (unit_vector i)"
  by (simp add: one_hot_def np_zeros_def setitem_def unit_vector_def)

lemma unit_vector_count: "i < 200 \<Longrightarrow> count_list (data (unit_vector i)) 1 = 1"
  by (simp add: unit_vector_def replicate_update_split)

subsection \<open>The inner loop of \<open>read_batch\<close>\<close>

lemma subscript_nat:
  "subscript xs (int k) = (if k < length xs then Inr (xs ! k) else Inl IndexError)"
  by (simp add: subscript_def)

lemma folder_loop_returns:
  assumes ret: "folder_loop fs images_source wnid_labels class_index s = Some r"
  shows "\<forall>wnid. subscript wnid_labels class_index = Inr wnid \<longrightarrow>
           fs (os_path_join images_source (os_path_join wnid ''images'')) \<noteq> None"
proof (rule folder_loop.raw_induct
    [where P = "\<lambda>fs images_source wnid_labels class_index s r.
        \<forall>wnid. subscript wnid_labels class_index = Inr wnid \<longrightarrow>
          fs (os_path_join images_source (os_path_join wnid ''images'')) \<noteq> None", OF _ ret])
  fix f and fs :: filesystem and images_source wnid_labels class_index s r
  assume IH: "\<And>fs images_source wnid_labels class_index s r.
      f fs images_source wnid_labels class_index s = Some r \<Longrightarrow>
      \<forall>wnid. subscript wnid_labels class_index = Inr wnid \<longrightarrow>
        fs (os_path_join images_source (os_path_join wnid ''images'')) \<noteq> None"
    and step: "(case subscript wnid_labels class_index of
          Inl e \<Rightarrow> Some (Inl e, s)
        | Inr wnid \<Rightarrow>
            (case os_path_exists fs (os_path_join images_source (os_path_join wnid ''images'')) s of
               (found, s1) \<Rightarrow>
                 if found then Some (Inr (os_path_join wnid ''images''), s1)
                 else f fs images_source wnid_labels class_index s1)) = Some r"
  show "\<forall>wnid. subscript wnid_labels class_index = Inr wnid \<longrightarrow>
          fs (os_path_join images_source (os_path_join wnid ''images'')) \<noteq> None"
  proof (intro allI impI notI)
    fix wnid
    assume w: "subscript wnid_labels class_index = Inr wnid"
      and none: "fs (os_path_join images_source (os_path_join wnid ''images'')) = None"
    from step w none have "f fs images_source wnid_labels class_index
        (s\<lparr>calls := calls s @ [Exists (os_path_join images_source (os_path_join wnid ''images''))]\<rparr>)
          = Some r"
      by (simp add: os_path_exists_def)
    from IH [OF this] w none show False by simp
  qed
qed

lemma folder_loop_missing:
  assumes "subscript wnid_labels class_index = Inr wnid"
    and "fs (os_path_join images_source (os_path_join wnid ''images'')) = None"
  shows "folder_loop fs images_source wnid_labels class_index s = None"
proof (cases "folder_loop fs images_source wnid_labels class_index s")
  case None
  then show ?thesis .
next
  case (Some r)
  from folder_loop_returns [OF Some] assms show ?thesis by simp
qed

lemma folder_loop_found:
  assumes "subscript wnid_labels class_index = Inr wnid"
    and "fs (os_path_join images_source (os_path_join wnid ''images'')) = Some nd"
  shows "folder_loop fs images_source wnid_labels class_index s =
           Some (Inr (os_path_join wnid ''images''),
                 s\<lparr>calls := calls s @ [Exists (os_path_join images_source (os_path_join wnid ''images''))]\<rparr>)"
  using assms by (subst folder_loop.simps) (simp add: os_path_exists_def)

lemma folder_loop_index_error:
  assumes "subscript wnid_labels class_index = Inl e"
  shows "folder_loop fs images_source wnid_labels class_index s = Some (Inl e, s)"
  using assms by (subst folder_loop.simps) simp

subsection \<open>The loop of \<open>read_image\<close>\<close>

lemma shape_np_array: "shape (np_array img) = [snd (imsize img), fst (imsize img), 3]"
  by (simp add: np_array_def)

lemma imsize_flat_image: "imsize (flat_image sz p) = sz"
  by (simp add: flat_image_def)

lemma choice_in_set: "xs \<noteq> [] \<Longrightarrow> xs ! (k mod length xs) \<in> set xs"
  by simp

lemma read_image_loop_empty:
  assumes "fs images_folder = Some (Dir [])"
  shows "read_image_loop fs images_folder s
           = Some (Inl IndexError, \<lparr>rng = rng s, calls = calls s @ [Listdir images_folder]\<rparr>)"
  using assms
  by (cases s; subst read_image_loop.simps) (simp add: os_listdir_def random_choice_def)

lemma read_image_loop_accept:
  assumes "fs images_folder = Some (Dir names)" "names \<noteq> []"
    and "fs (os_path_join images_folder (names ! (shd (rng s) mod length names))) = Some (ImageFile b img)"
    and "shape (np_array img) = [64, 64, 3]"
  shows "read_image_loop fs images_folder s
           = Some (Inr img,
               \<lparr>rng = stl (rng s),
                calls = calls s @ [Listdir images_folder,
                  Open (os_path_join images_folder (names ! (shd (rng s) mod length names)))]\<rparr>)"
  using assms
  by (cases s; subst read_image_loop.simps)
     (simp add: os_listdir_def random_choice_def randbelow_def image_open_rgb_def)

lemma read_image_loop_reject:
  assumes "fs images_folder = Some (Dir names)" "names \<noteq> []"
    and "fs (os_path_join images_folder (names ! (shd (rng s) mod length names))) = Some (ImageFile b img)"
    and "shape (np_array img) \<noteq> [64, 64, 3]"
  shows "read_image_loop fs images_folder s
           = read_image_loop fs images_folder
               \<lparr>rng = stl (rng s),
                calls = calls s @ [Listdir images_folder,
                  Open (os_path_join images_folder (names ! (shd (rng s) mod length names)))]\<rparr>"
  using assms
  by (cases s; subst read_image_loop.simps)
     (simp add: os_listdir_def random_choice_def randbelow_def image_open_rgb_def)

text \<open>The loop returns once a draw selects a conforming image, here after \<open>k\<close>
  rejected draws.\<close>

lemma read_image_loop_returns:
  assumes dir: "fs images_folder = Some (Dir names)" "names \<noteq> []"
    and rej: "\<forall>j<k. \<exists>b im. fs (os_path_join images_folder (names ! (snth (rng s) j mod length names)))
                       = Some (ImageFile b im) \<and> shape (np_array im) \<noteq> [64, 64, 3]"
    and acc: "fs (os_path_join images_folder (names ! (snth (rng s) k mod length names)))
                = Some (ImageFile b img)" "shape (np_array img) = [64, 64, 3]"
  shows "\<exists>s'. read_image_loop fs images_folder s = Some (Inr img, s') \<and>
              rng s' = sdrop (Suc k) (rng s)"
  using rej acc
proof (induction k arbitrary: s)
  case 0
  then show ?case
    using dir read_image_loop_accept [where fs = fs and names = names and s = s and img = img and b = b]
    by simp
next
  case (Suc k)
  let ?s1 = "\<lparr>rng = stl (rng s),
      calls = calls s @ [Listdir images_folder,
        Open (os_path_join images_folder (names ! (shd (rng s) mod length names)))]\<rparr>"
  from Suc.prems(1) obtain b' im where
    im: "fs (os_path_join images_folder (names ! (shd (rng s) mod length names))) = Some (ImageFile b' im)"
      "shape (np_array im) \<noteq> [64, 64, 3]"
    by (metis snth.simps(1) zero_less_Suc)
  have step: "read_image_loop fs images_folder s = read_image_loop fs images_folder ?s1"
    using dir im
    by (rule read_image_loop_reject [where fs = fs and names = names and s = s and img = im])
  have "\<forall>j<k. \<exists>b im. fs (os_path_join images_folder (names ! (snth (rng ?s1) j mod length names)))
                       = Some (ImageFile b im) \<and> shape (np_array im) \<noteq> [64, 64, 3]"
    using Suc.prems(1) by auto
  moreover have "fs (os_path_join images_folder (names ! (snth (rng ?s1) k mod length names)))
                = Some (ImageFile b img)"
    using Suc.prems(2) by simp
  ultimately obtain s' where "read_image_loop fs images_folder ?s1 = Some (Inr img, s')"
    "rng s' = sdrop (Suc k) (rng ?s1)"
    using Suc.IH [of ?s1] Suc.prems(3) by blast
  then show ?case using step by simp
qed

lemma read_image_loop_accepts:
  assumes ret: "read_image_loop fs images_folder s = Some r"
  shows "\<forall>img s'. r = (Inr img, s') \<longrightarrow>
           shape (np_array img) = [64, 64, 3] \<and>
           (\<exists>names name b. fs images_folder = Some (Dir names) \<and> name \<in> set names \<and>
              fs (os_path_join images_folder name) = Some (ImageFile b img))"
proof (rule read_image_loop.raw_induct
    [where P = "\<lambda>fs images_folder s r. \<forall>img s'. r = (Inr img, s') \<longrightarrow>
           shape (np_array img) = [64, 64, 3] \<and>
           (\<exists>names name b. fs images_folder = Some (Dir names) \<and> name \<in> set names \<and>
              fs (os_path_join images_folder name) = Some (ImageFile b img))", OF _ ret])
  fix f and fs :: filesystem and images_folder s r
  assume IH: "\<And>fs images_folder s r. f fs images_folder s = Some r \<Longrightarrow>
      \<forall>img s'. r = (Inr img, s') \<longrightarrow>
           shape (np_array img) = [64, 64, 3] \<and>
           (\<exists>names name b. fs images_folder = Some (Dir names) \<and> name \<in> set names \<and>
              fs (os_path_join images_folder name) = Some (ImageFile b img))"
    and step: "(case os_listdir fs images_folder s of
        (Inl e, s1) \<Rightarrow> Some (Inl e, s1)
      | (Inr names, s1) \<Rightarrow>
          (case random_choice names s1 of
             (Inl e, s2) \<Rightarrow> Some (Inl e, s2)
           | (Inr name, s2) \<Rightarrow>
               (case image_open_rgb fs (os_path_join images_folder name) s2 of
                  (Inl e, s3) \<Rightarrow> Some (Inl e, s3)
                | (Inr img, s3) \<Rightarrow>
                    if shape (np_array img) = [64, 64, 3] then Some (Inr img, s3)
                    else f fs images_folder s3))) = Some r"
  show "\<forall>img s'. r = (Inr img, s') \<longrightarrow>
           shape (np_array img) = [64, 64, 3] \<and>
           (\<exists>names name b. fs images_folder = Some (Dir names) \<and> name \<in> set names \<and>
              fs (os_path_join images_folder name) = Some (ImageFile b img))"
    using step IH
    apply (auto simp: os_listdir_def random_choice_def randbelow_def image_open_rgb_def Let_def
        split: option.splits node.splits if_splits prod.splits sum.splits)
     apply (blast intro: choice_in_set)
    apply fastforce
    done
qed

lemma read_image_loop_no_conforming:
  assumes dir: "fs images_folder = Some (Dir names)" "names \<noteq> []"
    and bad: "\<forall>name \<in> set names. \<exists>b im. fs (os_path_join images_folder name) = Some (ImageFile b im) \<and>
                 shape (np_array im) \<noteq> [64, 64, 3]"
  shows "read_image_loop fs images_folder s = None"
proof (cases "read_image_loop fs images_folder s")
  case None
  then show ?thesis .
next
  case (Some r)
  have "\<not> (fs images_folder = Some (Dir names) \<and>
           (\<forall>name \<in> set names. \<exists>b im. fs (os_path_join images_folder name) = Some (ImageFile b im) \<and>
                 shape (np_array im) \<noteq> [64, 64, 3]))"
  proof (rule read_image_loop.raw_induct
      [where P = "\<lambda>fs images_folder s r. \<not> (fs images_folder = Some (Dir names) \<and>
           (\<forall>name \<in> set names. \<exists>b im. fs (os_path_join images_folder name) = Some (ImageFile b im) \<and>
                 shape (np_array im) \<noteq> [64, 64, 3]))", OF _ Some])
    fix f and fs :: filesystem and images_folder s r
    assume IH: "\<And>fs images_folder s r. f fs images_folder s = Some r \<Longrightarrow>
        \<not> (fs images_folder = Some (Dir names) \<and>
           (\<forall>name \<in> set names. \<exists>b im. fs (os_path_join images_folder name) = Some (ImageFile b im) \<and>
                 shape (np_array im) \<noteq> [64, 64, 3]))"
      and step: "(case os_listdir fs images_folder s of
          (Inl e, s1) \<Rightarrow> Some (Inl e, s1)
        | (Inr names, s1) \<Rightarrow>
            (case random_choice names s1 of
               (Inl e, s2) \<Rightarrow> Some (Inl e, s2)
             | (Inr name, s2) \<Rightarrow>
                 (case image_open_rgb fs (os_path_join images_folder name) s2 of
                    (Inl e, s3) \<Rightarrow> Some (Inl e, s3)
                  | (Inr img, s3) \<Rightarrow>
                      if shape (np_array img) = [64, 64, 3] then Some (Inr img, s3)
                      else f fs images_folder s3))) = Some r"
    show "\<not> (fs images_folder = Some (Dir names) \<and>
           (\<forall>name \<in> set names. \<exists>b im. fs (os_path_join images_folder name) = Some (ImageFile b im) \<and>
                 shape (np_array im) \<noteq> [64, 64, 3]))"
    proof
      assume h: "fs images_folder = Some (Dir names) \<and>
           (\<forall>name \<in> set names. \<exists>b im. fs (os_path_join images_folder name) = Some (ImageFile b im) \<and>
                 shape (np_array im) \<noteq> [64, 64, 3])"
      let ?name = "names ! (shd (rng s) mod length names)"
      from assms(2) have "?name \<in> set names" by (rule choice_in_set)
      with h obtain b im where im: "fs (os_path_join images_folder ?name) = Some (ImageFile b im)"
        "shape (np_array im) \<noteq> [64, 64, 3]" by blast
      from step h im assms(2) obtain s3 where "f fs images_folder s3 = Some r"
        by (simp add: os_listdir_def random_choice_def randbelow_def image_open_rgb_def)
      from IH [OF this] h show False by simp
    qed
  qed
  with dir bad show ?thesis by simp
qed

lemma read_image_eq:
  "read_image rs fs images_folder s =
     (case read_image_loop fs images_folder s of
        None \<Rightarrow> None
      | Some (Inl e, s') \<Rightarrow> Some (Inl e, s')
      | Some (Inr img, s') \<Rightarrow> Some (Inr (mean_subtracted rs img), s'))"
  by (simp add: read_image_def preprocess_eq split: option.splits sum.splits prod.splits)

lemma conforming_iff: "shape (np_array img) = [64, 64, 3] \<longleftrightarrow> imsize img = (64, 64)"
  by (cases "imsize img") (auto simp: shape_np_array)

text \<open>The test on the shape comes after the conversion to RGB, which gives every image
  three bands: a grayscale file of 64 x 64 pixels passes it.\<close>

lemma read_image_accepts_grayscale:
  "fs_odd ''root/e/images/g.JPEG'' = Some (ImageFile 1 (flat_image (64, 64) (7, 7, 7))) \<and>
   read_image nearest fs_odd ''root/e/images'' (start (sconst 0))
     = Some (Inr (mean_subtracted nearest (flat_image (64, 64) (7, 7, 7))),
         \<lparr>rng = sconst 0,
          calls = [Listdir ''root/e/images'', Open ''root/e/images/g.JPEG'']\<rparr>)"
  using read_image_loop_accept [where fs = fs_odd and images_folder = "''root/e/images''"
        and names = "[''g.JPEG'']" and s = "start (sconst 0)"
        and img = "flat_image (64, 64) (7, 7, 7)" and b = 1]
  by (simp add: read_image_eq fs_odd_def start_def os_path_join_def shape_np_array
        imsize_flat_image)

subsection \<open>One round of the for loop\<close>

lemma random_randint_0_199:
  "random_randint 0 199 s = (Inr (int (shd (rng s) mod 200)), \<lparr>rng = stl (rng s), calls = calls s\<rparr>)"
  by (cases s) (simp add: random_randint_def randbelow_def)

lemma shape_mean_subtracted: "shape (mean_subtracted rs img) = [224, 224, 3]"
  by (simp add: mean_subtracted_def)

lemma shape_unit_vector: "shape (unit_vector i) = [200]"
  by (simp add: unit_vector_def)

lemma batch_step_index_error:
  assumes "\<not> shd (rng s) mod 200 < length wnid_labels"
  shows "batch_step rs fs images_source wnid_labels s
           = Some (Inl IndexError, \<lparr>rng = stl (rng s), calls = calls s\<rparr>)"
  using assms
  by (simp add: batch_step_def random_randint_0_199 subscript_nat folder_loop_index_error)

lemma batch_step_missing:
  assumes "shd (rng s) mod 200 < length wnid_labels"
    and "fs (os_path_join images_source
               (os_path_join (wnid_labels ! (shd (rng s) mod 200)) ''images'')) = None"
  shows "batch_step rs fs images_source wnid_labels s = None"
  using assms
  by (simp add: batch_step_def random_randint_0_199 subscript_nat
      folder_loop_missing [where wnid = "wnid_labels ! (shd (rng s) mod 200)"])

lemma batch_step_found:
  assumes "shd (rng s) mod 200 < length wnid_labels"
    and "fs (os_path_join images_source
               (os_path_join (wnid_labels ! (shd (rng s) mod 200)) ''images'')) = Some nd"
  shows "batch_step rs fs images_source wnid_labels s =
     (case read_image_loop fs
             (os_path_join images_source
                (os_path_join (wnid_labels ! (shd (rng s) mod 200)) ''images''))
             \<lparr>rng = stl (rng s),
              calls = calls s @ [Exists (os_path_join images_source
                (os_path_join (wnid_labels ! (shd (rng s) mod 200)) ''images''))]\<rparr> of
        None \<Rightarrow> None
      | Some (Inl e, s') \<Rightarrow> Some (Inl e, s')
      | Some (Inr img, s') \<Rightarrow>
          Some (Inr (mean_subtracted rs img, unit_vector (shd (rng s) mod 200)), s'))"
proof -
  have lt: "shd (rng s) mod 200 < 200" by simp
  show ?thesis
    using assms
    by (simp add: batch_step_def random_randint_0_199 subscript_nat read_image_eq
        one_hot_eq [OF lt]
        folder_loop_found [where wnid = "wnid_labels ! (shd (rng s) mod 200)" and nd = nd]
        split: option.splits sum.splits prod.splits)
qed

lemma batch_step_returns:
  assumes "batch_step rs fs images_source wnid_labels s = Some (Inr (img_array, vec), s')"
  shows "shd (rng s) mod 200 < length wnid_labels \<and>
         vec = unit_vector (shd (rng s) mod 200) \<and>
         (\<exists>img. img_array = mean_subtracted rs img)"
proof (cases "shd (rng s) mod 200 < length wnid_labels")
  case False
  from batch_step_index_error [OF False] assms show ?thesis by simp
next
  case True
  show ?thesis
  proof (cases "fs (os_path_join images_source
               (os_path_join (wnid_labels ! (shd (rng s) mod 200)) ''images''))")
    case None
    from batch_step_missing [where fs = fs, OF True None] assms show ?thesis by simp
  next
    case (Some nd)
    from assms True show ?thesis
      unfolding batch_step_found [where fs = fs, OF True Some]
      by (auto split: option.splits sum.splits prod.splits)
  qed
qed

lemma batch_step_accept:
  assumes "shd (rng s) mod 200 < length wnid_labels"
    and "fs (os_path_join images_source
               (os_path_join (wnid_labels ! (shd (rng s) mod 200)) ''images'')) = Some (Dir names)"
    and "names \<noteq> []"
    and "fs (os_path_join
               (os_path_join images_source
                  (os_path_join (wnid_labels ! (shd (rng s) mod 200)) ''images''))
               (names ! (shd (stl (rng s)) mod length names))) = Some (ImageFile b img)"
    and "shape (np_array img) = [64, 64, 3]"
  shows "batch_step rs fs images_source wnid_labels s =
     Some (Inr (mean_subtracted rs img, unit_vector (shd (rng s) mod 200)),
       \<lparr>rng = stl (stl (rng s)),
        calls = calls s @
          [Exists (os_path_join images_source
                     (os_path_join (wnid_labels ! (shd (rng s) mod 200)) ''images'')),
           Listdir (os_path_join images_source
                     (os_path_join (wnid_labels ! (shd (rng s) mod 200)) ''images'')),
           Open (os_path_join
                   (os_path_join images_source
                      (os_path_join (wnid_labels ! (shd (rng s) mod 200)) ''images''))
                   (names ! (shd (stl (rng s)) mod length names)))]\<rparr>)"
proof -
  let ?d = "os_path_join images_source
              (os_path_join (wnid_labels ! (shd (rng s) mod 200)) ''images'')"
  let ?s1 = "\<lparr>rng = stl (rng s), calls = calls s @ [Exists ?d]\<rparr>"
  have "read_image_loop fs ?d ?s1 =
      Some (Inr img, \<lparr>rng = stl (rng ?s1),
         calls = calls ?s1 @ [Listdir ?d, Open (os_path_join ?d (names ! (shd (rng ?s1) mod length names)))]\<rparr>)"
    using assms(2-5) by (intro read_image_loop_accept [where fs = fs and names = names]) simp_all
  then show ?thesis
    by (simp add: batch_step_found [where fs = fs, OF assms(1,2)])
qed

subsection \<open>The for loop and \<open>np.vstack\<close>\<close>

lemma batch_loop_returns:
  assumes "batch_loop rs fs images_source wnid_labels n acc s = Some (Inr (imgs, lbls), s')"
  shows "\<exists>new_imgs new_lbls.
           imgs = fst acc @ new_imgs \<and> lbls = snd acc @ new_lbls \<and>
           length new_imgs = n \<and> length new_lbls = n \<and>
           (\<forall>a \<in> set new_imgs. \<exists>img. a = mean_subtracted rs img) \<and>
           (\<forall>v \<in> set new_lbls. \<exists>i. i < 200 \<and> i < length wnid_labels \<and> v = unit_vector i)"
  using assms
proof (induction n arbitrary: acc s)
  case 0
  then show ?case by simp
next
  case (Suc n)
  from Suc.prems obtain img_array vec s1 where
    step: "batch_step rs fs images_source wnid_labels s = Some (Inr (img_array, vec), s1)"
    and rest: "batch_loop rs fs images_source wnid_labels n
        (fst acc @ [img_array], snd acc @ [vec]) s1 = Some (Inr (imgs, lbls), s')"
    by (auto split: option.splits sum.splits prod.splits)
  from batch_step_returns [OF step] obtain img where
    one: "shd (rng s) mod 200 < length wnid_labels" "vec = unit_vector (shd (rng s) mod 200)"
      "img_array = mean_subtracted rs img"
    by blast
  from Suc.IH [OF rest] obtain new_imgs new_lbls where
    new: "imgs = (fst acc @ [img_array]) @ new_imgs" "lbls = (snd acc @ [vec]) @ new_lbls"
      "length new_imgs = n" "length new_lbls = n"
      "\<forall>a \<in> set new_imgs. \<exists>img. a = mean_subtracted rs img"
      "\<forall>v \<in> set new_lbls. \<exists>i. i < 200 \<and> i < length wnid_labels \<and> v = unit_vector i"
    by auto
  have lt: "shd (rng s) mod 200 < 200" by simp
  show ?case
  proof (intro exI conjI)
    show "imgs = fst acc @ (img_array # new_imgs)" using new(1) by simp
    show "lbls = snd acc @ (vec # new_lbls)" using new(2) by simp
    show "length (img_array # new_imgs) = Suc n" using new(3) by simp
    show "length (vec # new_lbls) = Suc n" using new(4) by simp
    show "\<forall>a \<in> set (img_array # new_imgs). \<exists>img. a = mean_subtracted rs img"
      using new(5) one(3) by auto
    have "\<exists>i. i < 200 \<and> i < length wnid_labels \<and> vec = unit_vector i"
      using one(1,2) lt by (intro exI [of _ "shd (rng s) mod 200"]) simp
    then show "\<forall>v \<in> set (vec # new_lbls). \<exists>i. i < 200 \<and> i < length wnid_labels \<and> v = unit_vector i"
      using new(6) by simp
  qed
qed

lemma batch_loop_numeral:
  "batch_loop rs fs images_source wnid_labels (numeral k) acc s =
     (case batch_step rs fs images_source wnid_labels s of
        None \<Rightarrow> None
      | Some (Inl e, s') \<Rightarrow> Some (Inl e, s')
      | Some (Inr (img_array, vec), s') \<Rightarrow>
          batch_loop rs fs images_source wnid_labels (pred_numeral k)
            (fst acc @ [img_array], snd acc @ [vec]) s')"
  by (simp add: numeral_eq_Suc)

lemma np_vstack_empty: "np_vstack [] = Inl ValueError"
  by (simp add: np_vstack_def concatenate_def)

lemma shape_atleast_2d:
  "shape (atleast_2d a) = (case shape a of [] \<Rightarrow> [1, 1] | [n] \<Rightarrow> [1, n] | _ \<Rightarrow> shape a)"
  by (simp add: atleast_2d_def split: list.split)

lemma concatenate_same_shape:
  assumes ne: "arrs \<noteq> []" and same: "\<And>a. a \<in> set arrs \<Longrightarrow> shape a = sh" and sh: "sh \<noteq> []"
  shows "\<exists>r. concatenate arrs = Inr r"
proof -
  from ne have "hd arrs \<in> set arrs" by simp
  then have h: "shape (hd arrs) = sh" by (rule same)
  have "\<not> (\<exists>a \<in> set arrs. shape a = [] \<or> tl (shape a) \<noteq> tl (shape (hd arrs)))"
  proof
    assume "\<exists>a \<in> set arrs. shape a = [] \<or> tl (shape a) \<noteq> tl (shape (hd arrs))"
    then obtain a where a: "a \<in> set arrs" "shape a = [] \<or> tl (shape a) \<noteq> tl (shape (hd arrs))"
      by blast
    from same [OF a(1)] a(2) h sh show False by simp
  qed
  with ne show ?thesis unfolding concatenate_def by (simp only: if_False) blast
qed

lemma np_vstack_same_shape:
  assumes ne: "arrs \<noteq> []" and same: "\<And>a. a \<in> set arrs \<Longrightarrow> shape a = sh"
  shows "\<exists>r. np_vstack arrs = Inr r"
  unfolding np_vstack_def
proof (rule concatenate_same_shape)
  show "map atleast_2d arrs \<noteq> []" using ne by simp
  show "(case sh of [] \<Rightarrow> [1, 1] | [n] \<Rightarrow> [1, n] | _ \<Rightarrow> sh) \<noteq> []"
    by (simp split: list.split)
  fix b
  assume "b \<in> set (map atleast_2d arrs)"
  then obtain a where "a \<in> set arrs" "b = atleast_2d a" by auto
  then show "shape b = (case sh of [] \<Rightarrow> [1, 1] | [n] \<Rightarrow> [1, n] | _ \<Rightarrow> sh)"
    using same [of a] by (simp only: shape_atleast_2d)
qed

lemma read_batch_pos:
  assumes "0 < batch_size"
  shows "read_batch rs fs batch_size images_source wnid_labels s
           = batch_loop rs fs images_source wnid_labels (nat batch_size) ([], []) s"
proof (cases "batch_loop rs fs images_source wnid_labels (nat batch_size) ([], []) s")
  case None
  then show ?thesis by (simp add: read_batch_def)
next
  case (Some r)
  obtain x s' where r: "r = (x, s')" by (cases r)
  show ?thesis
  proof (cases x)
    case (Inl e)
    with Some r show ?thesis by (simp add: read_batch_def)
  next
    case (Inr b)
    obtain imgs lbls where b: "b = (imgs, lbls)" by (cases b)
    from batch_loop_returns [OF Some [unfolded r Inr b]] assms
    have len: "length imgs = nat batch_size" "length lbls = nat batch_size"
      and sh: "\<forall>a \<in> set imgs. shape a = [224, 224, 3]" "\<forall>v \<in> set lbls. shape v = [200]"
      by (auto simp: shape_mean_subtracted shape_unit_vector)
    from len assms have "imgs \<noteq> []" "lbls \<noteq> []" by auto
    with sh obtain r1 r2 where "np_vstack imgs = Inr r1" "np_vstack lbls = Inr r2"
      using np_vstack_same_shape [of imgs "[224, 224, 3]"] np_vstack_same_shape [of lbls "[200]"]
      by metis
    with Some r Inr b show ?thesis by (simp add: read_batch_def)
  qed
qed

lemma read_batch_nonpos:
  assumes "batch_size \<le> 0"
  shows "read_batch rs fs batch_size images_source wnid_labels s = Some (Inl ValueError, s)"
  using assms by (simp add: read_batch_def np_vstack_empty)

lemma batch_loop_add:
  "batch_loop rs fs images_source wnid_labels (m + n) acc s =
     (case batch_loop rs fs images_source wnid_labels m acc s of
        None \<Rightarrow> None
      | Some (Inl e, s') \<Rightarrow> Some (Inl e, s')
      | Some (Inr acc', s') \<Rightarrow> batch_loop rs fs images_source wnid_labels n acc' s')"
proof (induction m arbitrary: acc s)
  case 0
  show ?case by simp
next
  case (Suc m)
  show ?case
    by (simp add: Suc.IH split: option.splits sum.splits prod.splits)
qed

text \<open>A for loop of \<open>m + 1 + n\<close> rounds that returns: its first \<open>m\<close> rounds are a loop
  that returns the first \<open>m\<close> images and labels, and label \<open>m\<close> is the one-hot vector
  of the index drawn next.\<close>

lemma batch_loop_round:
  assumes ret: "batch_loop rs fs images_source wnid_labels (m + Suc n) ([], []) s
                  = Some (Inr (imgs, lbls), s')"
  shows "\<exists>sm. batch_loop rs fs images_source wnid_labels m ([], []) s
                 = Some (Inr (take m imgs, take m lbls), sm) \<and>
              shd (rng sm) mod 200 < length wnid_labels \<and>
              lbls ! m = unit_vector (shd (rng sm) mod 200)"
proof -
  from ret [unfolded batch_loop_add] obtain acc' sm where
    pre: "batch_loop rs fs images_source wnid_labels m ([], []) s = Some (Inr acc', sm)"
    and post: "batch_loop rs fs images_source wnid_labels (Suc n) acc' sm
                 = Some (Inr (imgs, lbls), s')"
    by (auto simp del: batch_loop.simps split: option.splits sum.splits prod.splits)
  obtain is0 ls0 where acc': "acc' = (is0, ls0)" by (cases acc')
  from batch_loop_returns [OF pre [unfolded acc']]
  have len0: "length is0 = m" "length ls0 = m" by auto
  from post obtain img_array vec s1 where
    step: "batch_step rs fs images_source wnid_labels sm = Some (Inr (img_array, vec), s1)"
    and rest: "batch_loop rs fs images_source wnid_labels n
        (fst acc' @ [img_array], snd acc' @ [vec]) s1 = Some (Inr (imgs, lbls), s')"
    by (auto split: option.splits sum.splits prod.splits)
  from batch_step_returns [OF step]
  have one: "shd (rng sm) mod 200 < length wnid_labels" "vec = unit_vector (shd (rng sm) mod 200)"
    by auto
  from batch_loop_returns [OF rest] obtain new_imgs new_lbls where
    "imgs = (is0 @ [img_array]) @ new_imgs" "lbls = (ls0 @ [vec]) @ new_lbls"
    by (auto simp: acc')
  with len0 have "take m imgs = is0" "take m lbls = ls0" "lbls ! m = vec"
    by (simp_all add: nth_append)
  with pre acc' one show ?thesis by simp
qed

lemma batch_loop_index_error_later:
  assumes pre: "batch_loop rs fs images_source wnid_labels m ([], []) s = Some (Inr b, sm)"
    and out: "\<not> shd (rng sm) mod 200 < length wnid_labels"
  shows "batch_loop rs fs images_source wnid_labels (m + Suc n) ([], []) s
           = Some (Inl IndexError, \<lparr>rng = stl (rng sm), calls = calls sm\<rparr>)"
  unfolding batch_loop_add using pre out by (simp add: batch_step_index_error)

lemma nat_split_rounds:
  assumes "0 < j" "j < batch_size"
  shows "\<exists>n. nat batch_size = nat j + Suc n"
proof -
  from assms have "nat j < nat batch_size" by simp
  then show ?thesis by (metis less_imp_Suc_add add_Suc_right)
qed

text \<open>A round whose class has no image folder does not return, and neither does
  anything that runs it; the inner loop does not return from any state.\<close>

lemma read_batch_missing_folder:
  assumes draw: "random_randint 0 199 s = (Inr class_index, s1)"
    and wnid: "subscript wnid_labels class_index = Inr wnid"
    and missing: "fs (os_path_join images_source (os_path_join wnid ''images'')) = None"
  shows "(\<forall>s2. folder_loop fs images_source wnid_labels class_index s2 = None) \<and>
         batch_step rs fs images_source wnid_labels s = None \<and>
         (\<forall>n acc. batch_loop rs fs images_source wnid_labels (Suc n) acc s = None) \<and>
         (0 < batch_size \<longrightarrow> read_batch rs fs batch_size images_source wnid_labels s = None)"
proof -
  from draw have ci: "class_index = int (shd (rng s) mod 200)"
    by (simp add: random_randint_0_199)
  from wnid have lt: "shd (rng s) mod 200 < length wnid_labels"
    and w: "wnid = wnid_labels ! (shd (rng s) mod 200)"
    by (auto simp: ci subscript_nat split: if_splits)
  have loop: "folder_loop fs images_source wnid_labels class_index s2 = None" for s2
    using wnid missing by (rule folder_loop_missing [where fs = fs])
  have step: "batch_step rs fs images_source wnid_labels s = None"
    using lt missing [unfolded w] by (rule batch_step_missing [where fs = fs])
  have "0 < batch_size \<longrightarrow> read_batch rs fs batch_size images_source wnid_labels s = None"
  proof
    assume pos: "0 < batch_size"
    then obtain n where "nat batch_size = Suc n" by (cases "nat batch_size") auto
    with pos step show "read_batch rs fs batch_size images_source wnid_labels s = None"
      by (simp add: read_batch_pos)
  qed
  with step loop show ?thesis by simp
qed

text \<open>An exception that reaches the caller of \<open>read_batch\<close>: the image folder of the
  class drawn exists and is empty, \<open>random.choice\<close> raises \<open>IndexError\<close>.\<close>

lemma read_batch_empty_folder:
  "read_batch nearest fs_odd 1 ''root'' [''a'', ''b'', ''c'', ''d''] (start (sconst 0))
     = Some (Inl IndexError,
         \<lparr>rng = sconst 0, calls = [Exists ''root/a/images'', Listdir ''root/a/images'']\<rparr>)"
proof -
  have "batch_step nearest fs_odd ''root'' [''a'', ''b'', ''c'', ''d''] \<lparr>rng = sconst 0, calls = []\<rparr>
      = Some (Inl IndexError,
         \<lparr>rng = sconst 0, calls = [Exists ''root/a/images'', Listdir ''root/a/images'']\<rparr>)"
    using batch_step_found [where fs = fs_odd and nd = "Dir []" and rs = nearest
        and images_source = "''root''" and wnid_labels = "[''a'', ''b'', ''c'', ''d'']"
        and s = "\<lparr>rng = sconst 0, calls = []\<rparr>"]
      read_image_loop_empty [where fs = fs_odd and images_folder = "''root/a/images''"
        and s = "\<lparr>rng = sconst 0, calls = [Exists ''root/a/images'']\<rparr>"]
    by (simp add: fs_odd_def os_path_join_def)
  then show ?thesis
    by (simp add: read_batch_pos start_def)
qed

subsection \<open>Rounds on the scenario directory\<close>

lemma fs_abc_round:
  assumes "shd g mod 200 < 3"
  shows "batch_step nearest fs_abc ''root'' [''a'', ''b'', ''c''] \<lparr>rng = g, calls = c0\<rparr>
     = Some (Inr (mean_subtracted nearest
                    ([flat_image (64, 64) (200, 100, 0), flat_image (64, 64) (0, 0, 0),
                      flat_image (64, 64) (255, 255, 255)] ! (shd g mod 200)),
                  unit_vector (shd g mod 200)),
          \<lparr>rng = stl (stl g),
           calls = c0 @
             [Exists ([''root/a/images'', ''root/b/images'', ''root/c/images''] ! (shd g mod 200)),
              Listdir ([''root/a/images'', ''root/b/images'', ''root/c/images''] ! (shd g mod 200)),
              Open ([''root/a/images/a_0.JPEG'', ''root/b/images/b_0.JPEG'',
                     ''root/c/images/c_0.JPEG''] ! (shd g mod 200))]\<rparr>)"
proof -
  from assms have "shd g mod 200 = 0 \<or> shd g mod 200 = 1 \<or> shd g mod 200 = 2" by arith
  then show ?thesis
  proof (elim disjE)
    assume i: "shd g mod 200 = 0"
    show ?thesis
      using batch_step_accept [where fs = fs_abc and names = "[''a_0.JPEG'']"
          and s = "\<lparr>rng = g, calls = c0\<rparr>" and wnid_labels = "[''a'', ''b'', ''c'']"
          and images_source = "''root''" and img = "flat_image (64, 64) (200, 100, 0)" and rs = nearest]
      by (simp add: i fs_abc_def os_path_join_def shape_np_array imsize_flat_image)
  next
    assume i: "shd g mod 200 = 1"
    show ?thesis
      using batch_step_accept [where fs = fs_abc and names = "[''b_0.JPEG'']"
          and s = "\<lparr>rng = g, calls = c0\<rparr>" and wnid_labels = "[''a'', ''b'', ''c'']"
          and images_source = "''root''" and img = "flat_image (64, 64) (0, 0, 0)" and rs = nearest]
      by (simp add: i fs_abc_def os_path_join_def shape_np_array imsize_flat_image)
  next
    assume i: "shd g mod 200 = 2"
    show ?thesis
      using batch_step_accept [where fs = fs_abc and names = "[''c_0.JPEG'']"
          and s = "\<lparr>rng = g, calls = c0\<rparr>" and wnid_labels = "[''a'', ''b'', ''c'']"
          and images_source = "''root''" and img = "flat_image (64, 64) (255, 255, 255)" and rs = nearest]
      by (simp add: i fs_abc_def os_path_join_def shape_np_array imsize_flat_image)
  qed
qed

subsection \<open>Runs that agree on generator and class folders\<close>

lemma observed_simps:
  "observed None = None"
  "observed (Some (x, s)) = Some (x, rng s)"
  by (simp_all add: observed_def)

lemma observed_eq_iff:
  "observed r1 = observed r2 \<longleftrightarrow>
     (r1 = None \<and> r2 = None) \<or>
     (\<exists>x s1 s2. r1 = Some (x, s1) \<and> r2 = Some (x, s2) \<and> rng s1 = rng s2)"
  by (cases r1; cases r2) (auto simp: observed_def)

lemma read_image_loop_simulates:
  assumes ret: "read_image_loop fs1 d s1 = Some r"
  shows "fs1 d = fs2 d \<longrightarrow>
         (\<forall>names name. fs1 d = Some (Dir names) \<longrightarrow> name \<in> set names \<longrightarrow>
            fs1 (os_path_join d name) = fs2 (os_path_join d name)) \<longrightarrow>
         (\<forall>s2. rng s2 = rng s1 \<longrightarrow>
            (\<exists>s2'. read_image_loop fs2 d s2 = Some (fst r, s2') \<and> rng s2' = rng (snd r)))"
proof (rule read_image_loop.raw_induct
    [where P = "\<lambda>fs1 d s1 r. fs1 d = fs2 d \<longrightarrow>
         (\<forall>names name. fs1 d = Some (Dir names) \<longrightarrow> name \<in> set names \<longrightarrow>
            fs1 (os_path_join d name) = fs2 (os_path_join d name)) \<longrightarrow>
         (\<forall>s2. rng s2 = rng s1 \<longrightarrow>
            (\<exists>s2'. read_image_loop fs2 d s2 = Some (fst r, s2') \<and> rng s2' = rng (snd r)))",
      OF _ ret])
  fix f and fs1 :: filesystem and d s1 r
  assume IH: "\<And>fs1 d s1 r. f fs1 d s1 = Some r \<Longrightarrow>
      fs1 d = fs2 d \<longrightarrow>
         (\<forall>names name. fs1 d = Some (Dir names) \<longrightarrow> name \<in> set names \<longrightarrow>
            fs1 (os_path_join d name) = fs2 (os_path_join d name)) \<longrightarrow>
         (\<forall>s2. rng s2 = rng s1 \<longrightarrow>
            (\<exists>s2'. read_image_loop fs2 d s2 = Some (fst r, s2') \<and> rng s2' = rng (snd r)))"
    and step: "(case os_listdir fs1 d s1 of
        (Inl e, s1) \<Rightarrow> Some (Inl e, s1)
      | (Inr names, s1) \<Rightarrow>
          (case random_choice names s1 of
             (Inl e, s2) \<Rightarrow> Some (Inl e, s2)
           | (Inr name, s2) \<Rightarrow>
               (case image_open_rgb fs1 (os_path_join d name) s2 of
                  (Inl e, s3) \<Rightarrow> Some (Inl e, s3)
                | (Inr img, s3) \<Rightarrow>
                    if shape (np_array img) = [64, 64, 3] then Some (Inr img, s3)
                    else f fs1 d s3))) = Some r"
  show "fs1 d = fs2 d \<longrightarrow>
         (\<forall>names name. fs1 d = Some (Dir names) \<longrightarrow> name \<in> set names \<longrightarrow>
            fs1 (os_path_join d name) = fs2 (os_path_join d name)) \<longrightarrow>
         (\<forall>s2. rng s2 = rng s1 \<longrightarrow>
            (\<exists>s2'. read_image_loop fs2 d s2 = Some (fst r, s2') \<and> rng s2' = rng (snd r)))"
  proof (intro impI allI)
    fix s2 :: state
    assume same: "fs1 d = fs2 d"
      and names: "\<forall>names name. fs1 d = Some (Dir names) \<longrightarrow> name \<in> set names \<longrightarrow>
            fs1 (os_path_join d name) = fs2 (os_path_join d name)"
      and g: "rng s2 = rng s1"
    show "\<exists>s2'. read_image_loop fs2 d s2 = Some (fst r, s2') \<and> rng s2' = rng (snd r)"
    proof (cases "\<exists>names. fs1 d = Some (Dir names) \<and> names \<noteq> []")
      case False
      with step same g show ?thesis
        by (subst read_image_loop.simps)
           (auto simp: os_listdir_def random_choice_def split: option.splits node.splits)
    next
      case True
      then obtain names where dir: "fs1 d = Some (Dir names)" "names \<noteq> []" by blast
      let ?name = "names ! (shd (rng s1) mod length names)"
      let ?p = "os_path_join d ?name"
      from dir(2) have "?name \<in> set names" by (rule choice_in_set)
      with names dir have p: "fs1 ?p = fs2 ?p" by blast
      show ?thesis
      proof (cases "\<exists>b img. fs1 ?p = Some (ImageFile b img) \<and> shape (np_array img) \<noteq> [64, 64, 3]")
        case False
        with step same g dir p show ?thesis
          by (subst read_image_loop.simps)
             (auto simp: os_listdir_def random_choice_def randbelow_def image_open_rgb_def
                   split: option.splits node.splits)
      next
        case True
        then obtain b img where img: "fs1 ?p = Some (ImageFile b img)"
          "shape (np_array img) \<noteq> [64, 64, 3]" by blast
        let ?t1 = "\<lparr>rng = stl (rng s1), calls = calls s1 @ [Listdir d, Open ?p]\<rparr>"
        let ?t2 = "\<lparr>rng = stl (rng s2), calls = calls s2 @ [Listdir d, Open ?p]\<rparr>"
        from step dir img have "f fs1 d ?t1 = Some r"
          by (cases s1)
             (simp add: os_listdir_def random_choice_def randbelow_def image_open_rgb_def)
        from IH [OF this] same names
        have "\<forall>s2. rng s2 = rng ?t1 \<longrightarrow>
            (\<exists>s2'. read_image_loop fs2 d s2 = Some (fst r, s2') \<and> rng s2' = rng (snd r))"
          by blast
        then have "rng ?t2 = rng ?t1 \<longrightarrow>
            (\<exists>s2'. read_image_loop fs2 d ?t2 = Some (fst r, s2') \<and> rng s2' = rng (snd r))"
          by (rule spec)
        with g
        obtain s2' where "read_image_loop fs2 d ?t2 = Some (fst r, s2')" "rng s2' = rng (snd r)"
          by auto
        moreover have "read_image_loop fs2 d s2 = read_image_loop fs2 d ?t2"
          using read_image_loop_reject [where fs = fs2 and images_folder = d and names = names
              and s = s2 and img = img] dir img same p g
          by simp
        ultimately show ?thesis by simp
      qed
    qed
  qed
qed

lemma read_image_loop_observed:
  assumes same: "fs1 d = fs2 d"
    and names: "\<And>names name. fs1 d = Some (Dir names) \<Longrightarrow> name \<in> set names \<Longrightarrow>
            fs1 (os_path_join d name) = fs2 (os_path_join d name)"
    and g: "rng s1 = rng s2"
  shows "observed (read_image_loop fs1 d s1) = observed (read_image_loop fs2 d s2)"
proof -
  have fwd: "\<exists>s2'. read_image_loop fs2 d s2 = Some (x, s2') \<and> rng s2' = rng s1'"
    if "read_image_loop fs1 d s1 = Some (x, s1')" for x s1'
    using read_image_loop_simulates [OF that, of fs2] same names g by auto
  have bwd: "\<exists>s1'. read_image_loop fs1 d s1 = Some (x, s1') \<and> rng s1' = rng s2'"
    if "read_image_loop fs2 d s2 = Some (x, s2')" for x s2'
    using read_image_loop_simulates [OF that, of fs1] same names g by auto
  show ?thesis
  proof (cases "read_image_loop fs1 d s1")
    case None
    show ?thesis
    proof (cases "read_image_loop fs2 d s2")
      case None
      with \<open>read_image_loop fs1 d s1 = None\<close> show ?thesis by simp
    next
      case (Some r2)
      obtain x s2' where "r2 = (x, s2')" by (cases r2)
      with Some bwd [of x s2'] None show ?thesis by simp
    qed
  next
    case (Some r1)
    obtain x s1' where r1: "r1 = (x, s1')" by (cases r1)
    from fwd [of x s1'] Some r1 obtain s2' where
      "read_image_loop fs2 d s2 = Some (x, s2')" "rng s2' = rng s1'" by auto
    with Some r1 show ?thesis by (simp add: observed_simps)
  qed
qed

lemma batch_step_observed:
  assumes same: "same_class_folders fs1 fs2 images_source wnid_labels"
    and g: "rng s1 = rng s2"
  shows "observed (batch_step rs fs1 images_source wnid_labels s1)
           = observed (batch_step rs fs2 images_source wnid_labels s2)"
proof (cases "shd (rng s1) mod 200 < length wnid_labels")
  case False
  with g show ?thesis
    by (simp add: batch_step_index_error observed_simps)
next
  case True
  let ?w = "wnid_labels ! (shd (rng s1) mod 200)"
  let ?d = "os_path_join images_source (os_path_join ?w ''images'')"
  from True have "?w \<in> set wnid_labels" by simp
  with same have d: "fs1 ?d = fs2 ?d"
    and names: "\<And>names name. fs1 ?d = Some (Dir names) \<Longrightarrow> name \<in> set names \<Longrightarrow>
            fs1 (os_path_join ?d name) = fs2 (os_path_join ?d name)"
    by (auto simp: same_class_folders_def Let_def)
  show ?thesis
  proof (cases "fs1 ?d")
    case None
    with d True g show ?thesis
      by (simp add: batch_step_missing [where fs = fs1] batch_step_missing [where fs = fs2])
  next
    case (Some nd)
    let ?t1 = "\<lparr>rng = stl (rng s1), calls = calls s1 @ [Exists ?d]\<rparr>"
    let ?t2 = "\<lparr>rng = stl (rng s1), calls = calls s2 @ [Exists ?d]\<rparr>"
    from Some d have Some2: "fs2 ?d = Some nd" by simp
    have "observed (read_image_loop fs1 ?d ?t1) = observed (read_image_loop fs2 ?d ?t2)"
    proof (rule read_image_loop_observed)
      show "fs1 ?d = fs2 ?d" by (rule d)
      show "rng ?t1 = rng ?t2" by simp
      fix names name
      assume "fs1 ?d = Some (Dir names)" "name \<in> set names"
      then show "fs1 (os_path_join ?d name) = fs2 (os_path_join ?d name)" by (rule names)
    qed
    then have rel: "(read_image_loop fs1 ?d ?t1 = None \<and> read_image_loop fs2 ?d ?t2 = None) \<or>
       (\<exists>x u1 u2. read_image_loop fs1 ?d ?t1 = Some (x, u1) \<and>
          read_image_loop fs2 ?d ?t2 = Some (x, u2) \<and> rng u1 = rng u2)"
      by (simp only: observed_eq_iff)
    note b1 = batch_step_found [where fs = fs1 and s = s1 and rs = rs, OF True Some]
    note b2 = batch_step_found [where fs = fs2 and s = s2 and rs = rs and nd = nd
        and images_source = images_source and wnid_labels = wnid_labels,
        unfolded g [symmetric], OF True Some2]
    from rel show ?thesis
      unfolding b1 b2 by (auto simp: observed_simps split: sum.splits)
  qed
qed

lemma batch_loop_observed:
  assumes same: "same_class_folders fs1 fs2 images_source wnid_labels"
    and g: "rng s1 = rng s2"
  shows "observed (batch_loop rs fs1 images_source wnid_labels n acc s1)
           = observed (batch_loop rs fs2 images_source wnid_labels n acc s2)"
  using g
proof (induction n arbitrary: acc s1 s2)
  case 0
  then show ?case by (simp add: observed_simps)
next
  case (Suc n)
  from batch_step_observed [OF same Suc.prems, of rs]
  have "(batch_step rs fs1 images_source wnid_labels s1 = None \<and>
         batch_step rs fs2 images_source wnid_labels s2 = None) \<or>
       (\<exists>x u1 u2. batch_step rs fs1 images_source wnid_labels s1 = Some (x, u1) \<and>
          batch_step rs fs2 images_source wnid_labels s2 = Some (x, u2) \<and> rng u1 = rng u2)"
    by (simp only: observed_eq_iff)
  then show ?case
  proof (elim disjE exE conjE)
    assume "batch_step rs fs1 images_source wnid_labels s1 = None"
      "batch_step rs fs2 images_source wnid_labels s2 = None"
    then show ?thesis by (simp add: observed_simps)
  next
    fix x u1 u2
    assume st: "batch_step rs fs1 images_source wnid_labels s1 = Some (x, u1)"
      "batch_step rs fs2 images_source wnid_labels s2 = Some (x, u2)"
      and u: "rng u1 = rng u2"
    show ?thesis
    proof (cases x)
      case (Inl e)
      with st u show ?thesis by (simp add: observed_simps)
    next
      case (Inr pair)
      obtain img_array vec where "pair = (img_array, vec)" by (cases pair)
      with Inr st Suc.IH [OF u] show ?thesis by simp
    qed
  qed
qed

section \<open>The claims\<close>

subsection \<open>The preprocessor\<close>

text \<open>
  C6: for every image and every resampling filter, \<open>preprocess\<close> returns an array whose
  element at row \<open>y\<close>, column \<open>x\<close> and channel \<open>c\<close>, read as a signed 32-bit integer,
  is the value of the resized image's pixel \<open>(x, y)\<close> in that channel minus the mean of
  the channel: 142, 143, 145. The difference is the integer difference: it is not
  clamped, does not wrap, and is negative where the pixel is below the mean. The
  result is a function of the image and the filter alone.
\<close>

theorem preprocess_pixel:
  assumes "y < 224" "x < 224" "c < 3"
  shows "\<exists>a. preprocess rs img = Inr a \<and>
           sint (at3 a y x c) =
             uint (band c (getpixel (resize rs img (224, 224)) (x, y))) - [142, 143, 145] ! c"
proof -
  have "c = 0 \<or> c = 1 \<or> c = 2" using assms(3) by arith
  then have "sint (at3 (mean_subtracted rs img) y x c) =
      uint (band c (rs img (224, 224) (x, y))) - [142, 143, 145] ! c"
    using sint_sub_mean [of 142 "band 0 (rs img (224, 224) (x, y))"]
      sint_sub_mean [of 143 "band 1 (rs img (224, 224) (x, y))"]
      sint_sub_mean [of 145 "band 2 (rs img (224, 224) (x, y))"]
    by (auto simp: at3_mean_subtracted [OF assms])
  then show ?thesis using assms by (simp add: preprocess_eq getpixel_resize)
qed

theorem preprocess_pixel_witness:
  "(10::nat) < 224 \<and> (223::nat) < 224 \<and> (1::nat) < 3 \<and>
   (\<exists>a. preprocess nearest (flat_image (64, 64) (200, 100, 0)) = Inr a \<and>
        sint (at3 a 10 223 1) = - 43)"
  using preprocess_pixel [of 10 223 1 nearest "flat_image (64, 64) (200, 100, 0)"]
  by (simp add: getpixel_resize nearest_def flat_image_def band_def)

text \<open>
  C7: whatever the size of the input image, \<open>preprocess\<close> returns an array of shape
  (224, 224, 3), holding 224 * 224 * 3 elements.
\<close>

theorem preprocess_shape:
  "\<exists>a. preprocess rs img = Inr a \<and> shape a = [224, 224, 3] \<and> length (data a) = 224 * 224 * 3"
  by (simp add: preprocess_eq mean_subtracted_def concat_triples_length pixels_resize_length)

subsection \<open>Labels\<close>

text \<open>
  C8: for every index \<open>i\<close> of \<open>[0, 199]\<close>, \<open>one_hot i\<close> returns a vector of 200 entries,
  with 1.0 at position \<open>i\<close>, 0.0 at every other position, and so exactly one entry
  equal to 1.0.
\<close>

theorem one_hot_valid:
  assumes "0 \<le> i" "i \<le> 199"
  shows "\<exists>v. one_hot i = Inr v \<and> shape v = [200] \<and> length (data v) = 200 \<and>
           data v ! nat i = 1 \<and> (\<forall>j<200. j \<noteq> nat i \<longrightarrow> data v ! j = 0) \<and>
           count_list (data v) 1 = 1"
proof -
  from assms have lt: "nat i < 200" by simp
  from assms have "one_hot i = Inr (unit_vector (nat i))"
    using one_hot_eq [OF lt] by simp
  moreover have "shape (unit_vector (nat i)) = [200]" "length (data (unit_vector (nat i))) = 200"
    by (simp_all add: unit_vector_def)
  moreover have "data (unit_vector (nat i)) ! nat i = 1"
    using lt by (simp add: unit_vector_def)
  moreover have "\<forall>j<200. j \<noteq> nat i \<longrightarrow> data (unit_vector (nat i)) ! j = 0"
    by (simp add: unit_vector_def)
  ultimately show ?thesis using unit_vector_count [OF lt] by simp
qed

theorem one_hot_valid_witness:
  "(0::int) \<le> 7 \<and> (7::int) \<le> 199 \<and>
     (\<exists>v. one_hot 7 = Inr v \<and> shape v = [200] \<and> length (data v) = 200 \<and>
         data v ! nat 7 = 1 \<and> (\<forall>j<200. j \<noteq> nat 7 \<longrightarrow> data v ! j = 0) \<and>
         count_list (data v) 1 = 1)"
  using one_hot_valid [of 7] by simp

subsection \<open>The label indexer\<close>

text \<open>
  C9: \<open>get_wnids\<close> makes one call of \<open>os.listdir\<close> and returns its result as it is.
  For a readable directory that is the listing itself: every entry, in the order of
  the listing, duplicates kept, nothing checked. For a path that does not exist it
  is \<open>FileNotFoundError\<close>, for an entry that may not be read \<open>PermissionError\<close>; the
  state shows the single call and an untouched generator, so nothing is retried.
\<close>

theorem get_wnids_listing:
  "(fs p = Some (Dir names) \<longrightarrow>
      get_wnids fs p s = (Inr names, s\<lparr>calls := calls s @ [Listdir p]\<rparr>)) \<and>
   (fs p = None \<longrightarrow>
      get_wnids fs p s = (Inl FileNotFoundError, s\<lparr>calls := calls s @ [Listdir p]\<rparr>)) \<and>
   (fs p = Some Unreadable \<longrightarrow>
      get_wnids fs p s = (Inl PermissionError, s\<lparr>calls := calls s @ [Listdir p]\<rparr>))"
  by (simp add: get_wnids_def os_listdir_def)

theorem get_wnids_listing_witness:
  "fs_abc ''root'' = Some (Dir [''a'', ''b'', ''c'']) \<and>
   get_wnids fs_abc ''root'' (start (sconst 0))
     = (Inr [''a'', ''b'', ''c''], \<lparr>rng = sconst 0, calls = [Listdir ''root'']\<rparr>) \<and>
   fs_abc ''nowhere'' = None \<and>
   get_wnids fs_abc ''nowhere'' (start (sconst 0))
     = (Inl FileNotFoundError, \<lparr>rng = sconst 0, calls = [Listdir ''nowhere'']\<rparr>) \<and>
   (fs_abc(''locked'' \<mapsto> Unreadable)) ''locked'' = Some Unreadable \<and>
   get_wnids (fs_abc(''locked'' \<mapsto> Unreadable)) ''locked'' (start (sconst 0))
     = (Inl PermissionError, \<lparr>rng = sconst 0, calls = [Listdir ''locked'']\<rparr>)"
  using get_wnids_listing [of fs_abc "''root''" "[''a'', ''b'', ''c'']" "start (sconst 0)"]
    get_wnids_listing [of fs_abc "''nowhere''" "[]" "start (sconst 0)"]
    get_wnids_listing [of "fs_abc(''locked'' \<mapsto> Unreadable)" "''locked''" "[]" "start (sconst 0)"]
  by (simp add: fs_abc_def start_def)

subsection \<open>The batch sampler\<close>

text \<open>
  C2: a call of \<open>read_batch\<close> with a batch size of at least 1 that returns a batch
  returns as many images as labels, and as many as the batch size.
\<close>

theorem read_batch_lengths:
  assumes "1 \<le> batch_size"
    and "read_batch rs fs batch_size images_source wnid_labels s = Some (Inr (images, labels), s')"
  shows "int (length images) = batch_size \<and> int (length labels) = batch_size"
proof -
  from assms have "batch_loop rs fs images_source wnid_labels (nat batch_size) ([], []) s
      = Some (Inr (images, labels), s')"
    by (simp add: read_batch_pos)
  from batch_loop_returns [OF this] assms(1) show ?thesis by auto
qed

theorem read_batch_lengths_witness:
  "(1::int) \<le> 2 \<and>
   read_batch nearest fs_abc 2 ''root'' [''a'', ''b'', ''c''] (start (sconst 401))
     = Some (Inr ([mean_subtracted nearest (flat_image (64, 64) (0, 0, 0)),
                   mean_subtracted nearest (flat_image (64, 64) (0, 0, 0))],
                  [unit_vector 1, unit_vector 1]),
             \<lparr>rng = sconst 401,
              calls = [Exists ''root/b/images'', Listdir ''root/b/images'',
                       Open ''root/b/images/b_0.JPEG'',
                       Exists ''root/b/images'', Listdir ''root/b/images'',
                       Open ''root/b/images/b_0.JPEG'']\<rparr>) \<and>
   int (length [mean_subtracted nearest (flat_image (64, 64) (0, 0, 0)),
                mean_subtracted nearest (flat_image (64, 64) (0, 0, 0))]) = 2 \<and>
   int (length [unit_vector 1, unit_vector 1]) = 2"
proof -
  have run: "read_batch nearest fs_abc 2 ''root'' [''a'', ''b'', ''c''] (start (sconst 401))
     = Some (Inr ([mean_subtracted nearest (flat_image (64, 64) (0, 0, 0)),
                   mean_subtracted nearest (flat_image (64, 64) (0, 0, 0))],
                  [unit_vector 1, unit_vector 1]),
             \<lparr>rng = sconst 401,
              calls = [Exists ''root/b/images'', Listdir ''root/b/images'',
                       Open ''root/b/images/b_0.JPEG'',
                       Exists ''root/b/images'', Listdir ''root/b/images'',
                       Open ''root/b/images/b_0.JPEG'']\<rparr>)"
    by (simp add: read_batch_pos start_def batch_loop_numeral fs_abc_round)
  show ?thesis
    using read_batch_lengths [of 2, OF _ run] run by simp
qed

text \<open>
  C10, as the code has it: a call of \<open>read_batch\<close> with a batch size of 0 draws no class
  index and makes no file-system call, the state is the one it was given; it does not
  return two empty sequences but raises the \<open>ValueError\<close> of \<open>np.vstack\<close> on an empty
  list.
\<close>

theorem read_batch_zero:
  "read_batch rs fs 0 images_source wnid_labels s = Some (Inl ValueError, s)"
  by (simp add: read_batch_nonpos)

text \<open>The scenario directory, batch size 0: the call raises instead of returning
  two empty sequences.\<close>

theorem read_batch_zero_counterexample:
  "read_batch nearest fs_abc 0 ''root'' [''a'', ''b'', ''c''] (start (sconst 0))
     = Some (Inl ValueError, \<lparr>rng = sconst 0, calls = []\<rparr>)"
  by (simp add: read_batch_nonpos start_def)

text \<open>
  C1, as the code has it: the class index of every round is the value of
  \<open>random.randint(0, 199)\<close>, whatever the number of class identifiers. When that value,
  in the first round or in a later one, is not below the number of class identifiers,
  the call raises \<open>IndexError\<close>. In a call that returns, the rounds before round \<open>j\<close>
  are themselves a returning call, and label \<open>j\<close> is the one-hot vector of the index
  drawn next, which lies in \<open>[0, 199]\<close> and below the number of class identifiers: with
  three identifiers every label is hot at 0, 1 or 2.
\<close>

theorem read_batch_labels:
  "(\<forall>k s1. 0 < batch_size \<and> random_randint 0 199 s = (Inr k, s1) \<and>
       int (length wnid_labels) \<le> k \<longrightarrow>
      read_batch rs fs batch_size images_source wnid_labels s = Some (Inl IndexError, s1)) \<and>
   (\<forall>j b sj k s1. 0 < j \<and> j < batch_size \<and>
       read_batch rs fs j images_source wnid_labels s = Some (Inr b, sj) \<and>
       random_randint 0 199 sj = (Inr k, s1) \<and> int (length wnid_labels) \<le> k \<longrightarrow>
      read_batch rs fs batch_size images_source wnid_labels s = Some (Inl IndexError, s1)) \<and>
   (\<forall>images labels s'.
      read_batch rs fs batch_size images_source wnid_labels s = Some (Inr (images, labels), s') \<longrightarrow>
      (\<exists>k s1. random_randint 0 199 s = (Inr k, s1) \<and> 0 \<le> k \<and> k \<le> 199 \<and>
         k < int (length wnid_labels) \<and> one_hot k = Inr (labels ! 0)) \<and>
      (\<forall>j. 0 < j \<and> j < batch_size \<longrightarrow>
         (\<exists>sj k s1. read_batch rs fs j images_source wnid_labels s
                       = Some (Inr (take (nat j) images, take (nat j) labels), sj) \<and>
            random_randint 0 199 sj = (Inr k, s1) \<and> 0 \<le> k \<and> k \<le> 199 \<and>
            k < int (length wnid_labels) \<and> one_hot k = Inr (labels ! nat j))) \<and>
      (\<forall>v \<in> set labels. \<exists>i. i < 200 \<and> i < length wnid_labels \<and> one_hot (int i) = Inr v))"
proof (intro conjI impI allI)
  fix k s1
  assume a: "0 < batch_size \<and> random_randint 0 199 s = (Inr k, s1) \<and>
       int (length wnid_labels) \<le> k"
  then have k: "k = int (shd (rng s) mod 200)"
    and s1: "s1 = \<lparr>rng = stl (rng s), calls = calls s\<rparr>"
    by (simp_all add: random_randint_0_199)
  from a k have out: "\<not> shd (rng s) mod 200 < length wnid_labels" by simp
  from a obtain n where n: "nat batch_size = Suc n" by (cases "nat batch_size") auto
  from a out show "read_batch rs fs batch_size images_source wnid_labels s
        = Some (Inl IndexError, s1)"
    by (simp add: read_batch_pos n batch_step_index_error s1)
next
  fix j b sj k s1
  assume a: "0 < j \<and> j < batch_size \<and>
       read_batch rs fs j images_source wnid_labels s = Some (Inr b, sj) \<and>
       random_randint 0 199 sj = (Inr k, s1) \<and> int (length wnid_labels) \<le> k"
  then have k: "k = int (shd (rng sj) mod 200)"
    and s1: "s1 = \<lparr>rng = stl (rng sj), calls = calls sj\<rparr>"
    by (simp_all add: random_randint_0_199)
  from a k have out: "\<not> shd (rng sj) mod 200 < length wnid_labels" by simp
  from a have j: "0 < j" "j < batch_size"
    and rj: "read_batch rs fs j images_source wnid_labels s = Some (Inr b, sj)"
    by simp_all
  from rj have pre: "batch_loop rs fs images_source wnid_labels (nat j) ([], []) s = Some (Inr b, sj)"
    by (simp only: read_batch_pos [OF j(1)])
  from j obtain n where n: "nat batch_size = nat j + Suc n"
    using nat_split_rounds [of j batch_size] by blast
  from j have "0 < batch_size" by simp
  then have "read_batch rs fs batch_size images_source wnid_labels s
      = batch_loop rs fs images_source wnid_labels (nat j + Suc n) ([], []) s"
    by (simp only: n [symmetric] read_batch_pos)
  also have "\<dots> = Some (Inl IndexError, s1)"
    unfolding s1 using pre out by (rule batch_loop_index_error_later)
  finally show "read_batch rs fs batch_size images_source wnid_labels s
      = Some (Inl IndexError, s1)" .
next
  fix images labels s'
  assume ret: "read_batch rs fs batch_size images_source wnid_labels s
      = Some (Inr (images, labels), s')"
  have pos: "0 < batch_size"
  proof (rule ccontr)
    assume "\<not> 0 < batch_size"
    then have "batch_size \<le> 0" by simp
    from read_batch_nonpos [OF this] ret show False by simp
  qed
  with ret have loop: "batch_loop rs fs images_source wnid_labels (nat batch_size) ([], []) s
      = Some (Inr (images, labels), s')"
    by (simp add: read_batch_pos)
  from pos obtain n where n: "nat batch_size = 0 + Suc n" by (cases "nat batch_size") auto
  from batch_loop_round [OF loop [unfolded n]]
  have first: "shd (rng s) mod 200 < length wnid_labels"
    "labels ! 0 = unit_vector (shd (rng s) mod 200)"
    by simp_all
  have lt: "shd (rng s) mod 200 < 200" by simp
  show "\<exists>k s1. random_randint 0 199 s = (Inr k, s1) \<and> 0 \<le> k \<and> k \<le> 199 \<and>
         k < int (length wnid_labels) \<and> one_hot k = Inr (labels ! 0)"
    using first one_hot_eq [OF lt] by (simp add: random_randint_0_199)
next
  fix images labels s' j
  assume ret: "read_batch rs fs batch_size images_source wnid_labels s
      = Some (Inr (images, labels), s')"
    and j: "0 < j \<and> j < batch_size"
  from j have "0 < batch_size" by simp
  from ret have loop: "batch_loop rs fs images_source wnid_labels (nat batch_size) ([], []) s
      = Some (Inr (images, labels), s')"
    by (simp only: read_batch_pos [OF \<open>0 < batch_size\<close>])
  from j obtain n where n: "nat batch_size = nat j + Suc n"
    using nat_split_rounds [of j batch_size] by blast
  from batch_loop_round [OF loop [unfolded n]] obtain sj where
    pre: "batch_loop rs fs images_source wnid_labels (nat j) ([], []) s
            = Some (Inr (take (nat j) images, take (nat j) labels), sj)"
    and round: "shd (rng sj) mod 200 < length wnid_labels"
      "labels ! nat j = unit_vector (shd (rng sj) mod 200)"
    by blast
  have lt: "shd (rng sj) mod 200 < 200" by simp
  from j have "0 < j" by simp
  with pre have "read_batch rs fs j images_source wnid_labels s
      = Some (Inr (take (nat j) images, take (nat j) labels), sj)"
    by (simp only: read_batch_pos)
  then show "\<exists>sj k s1. read_batch rs fs j images_source wnid_labels s
                       = Some (Inr (take (nat j) images, take (nat j) labels), sj) \<and>
            random_randint 0 199 sj = (Inr k, s1) \<and> 0 \<le> k \<and> k \<le> 199 \<and>
            k < int (length wnid_labels) \<and> one_hot k = Inr (labels ! nat j)"
    using round one_hot_eq [OF lt] by (simp add: random_randint_0_199)
next
  fix images labels s'
  assume ret: "read_batch rs fs batch_size images_source wnid_labels s
      = Some (Inr (images, labels), s')"
  have pos: "0 < batch_size"
  proof (rule ccontr)
    assume "\<not> 0 < batch_size"
    then have "batch_size \<le> 0" by simp
    from read_batch_nonpos [OF this] ret show False by simp
  qed
  with ret have "batch_loop rs fs images_source wnid_labels (nat batch_size) ([], []) s
      = Some (Inr (images, labels), s')"
    by (simp add: read_batch_pos)
  from batch_loop_returns [OF this]
  have u: "\<forall>v \<in> set labels. \<exists>i. i < 200 \<and> i < length wnid_labels \<and> v = unit_vector i"
    by simp
  show "\<forall>v \<in> set labels. \<exists>i. i < 200 \<and> i < length wnid_labels \<and> one_hot (int i) = Inr v"
  proof
    fix v
    assume "v \<in> set labels"
    with u obtain i where i: "i < 200" "i < length wnid_labels" "v = unit_vector i" by blast
    from one_hot_eq [OF i(1)] i show "\<exists>i. i < 200 \<and> i < length wnid_labels \<and> one_hot (int i) = Inr v"
      by (intro exI [of _ i]) simp
  qed
qed

theorem read_batch_labels_witness:
  "read_batch nearest fs_abc 3 ''root'' [''a'', ''b'', ''c''] (start (sconst 5))
     = Some (Inl IndexError, \<lparr>rng = sconst 5, calls = []\<rparr>) \<and>
   read_batch nearest fs_abc 1 ''root'' [''a'', ''b'', ''c''] (start (0 ## 0 ## 3 ## sconst 0))
     = Some (Inr ([mean_subtracted nearest (flat_image (64, 64) (200, 100, 0))], [unit_vector 0]),
         \<lparr>rng = 3 ## sconst 0,
          calls = [Exists ''root/a/images'', Listdir ''root/a/images'',
                   Open ''root/a/images/a_0.JPEG'']\<rparr>) \<and>
   random_randint 0 199
       \<lparr>rng = 3 ## sconst 0,
        calls = [Exists ''root/a/images'', Listdir ''root/a/images'',
                 Open ''root/a/images/a_0.JPEG'']\<rparr>
     = (Inr 3, \<lparr>rng = sconst 0,
                calls = [Exists ''root/a/images'', Listdir ''root/a/images'',
                         Open ''root/a/images/a_0.JPEG'']\<rparr>) \<and>
   read_batch nearest fs_abc 3 ''root'' [''a'', ''b'', ''c''] (start (0 ## 0 ## 3 ## sconst 0))
     = Some (Inl IndexError,
         \<lparr>rng = sconst 0,
          calls = [Exists ''root/a/images'', Listdir ''root/a/images'',
                   Open ''root/a/images/a_0.JPEG'']\<rparr>) \<and>
   read_batch nearest fs_abc 3 ''root'' [''a'', ''b'', ''c'']
       (start (2 ## 7 ## 0 ## 7 ## 1 ## 7 ## sconst 0))
     = Some (Inr ([mean_subtracted nearest (flat_image (64, 64) (255, 255, 255)),
                   mean_subtracted nearest (flat_image (64, 64) (200, 100, 0)),
                   mean_subtracted nearest (flat_image (64, 64) (0, 0, 0))],
                  [unit_vector 2, unit_vector 0, unit_vector 1]),
             \<lparr>rng = sconst 0,
              calls = [Exists ''root/c/images'', Listdir ''root/c/images'',
                       Open ''root/c/images/c_0.JPEG'',
                       Exists ''root/a/images'', Listdir ''root/a/images'',
                       Open ''root/a/images/a_0.JPEG'',
                       Exists ''root/b/images'', Listdir ''root/b/images'',
                       Open ''root/b/images/b_0.JPEG'']\<rparr>) \<and>
   (\<exists>k s1. random_randint 0 199 (start (2 ## 7 ## 0 ## 7 ## 1 ## 7 ## sconst 0)) = (Inr k, s1) \<and>
      0 \<le> k \<and> k \<le> 199 \<and> k < int (length [''a'', ''b'', ''c'']) \<and>
      one_hot k = Inr (unit_vector 2)) \<and>
   (\<exists>sj k s1. read_batch nearest fs_abc 2 ''root'' [''a'', ''b'', ''c'']
                   (start (2 ## 7 ## 0 ## 7 ## 1 ## 7 ## sconst 0))
                 = Some (Inr ([mean_subtracted nearest (flat_image (64, 64) (255, 255, 255)),
                               mean_subtracted nearest (flat_image (64, 64) (200, 100, 0))],
                              [unit_vector 2, unit_vector 0]), sj) \<and>
      random_randint 0 199 sj = (Inr k, s1) \<and> 0 \<le> k \<and> k \<le> 199 \<and>
      k < int (length [''a'', ''b'', ''c'']) \<and> one_hot k = Inr (unit_vector 1)) \<and>
   (\<exists>i. i < 200 \<and> i < length [''a'', ''b'', ''c''] \<and> one_hot (int i) = Inr (unit_vector 2)) \<and>
   (\<exists>i. i < 200 \<and> i < length [''a'', ''b'', ''c''] \<and> one_hot (int i) = Inr (unit_vector 0)) \<and>
   (\<exists>i. i < 200 \<and> i < length [''a'', ''b'', ''c''] \<and> one_hot (int i) = Inr (unit_vector 1))"
proof -
  let ?wn = "[''a'', ''b'', ''c'']"
  let ?A = "mean_subtracted nearest (flat_image (64, 64) (200, 100, 0))"
  let ?B = "mean_subtracted nearest (flat_image (64, 64) (0, 0, 0))"
  let ?C = "mean_subtracted nearest (flat_image (64, 64) (255, 255, 255))"
  let ?ca = "[Exists ''root/a/images'', Listdir ''root/a/images'',
                   Open ''root/a/images/a_0.JPEG'']"
  let ?g2 = "0 ## 0 ## 3 ## sconst 0"
  let ?g3 = "2 ## 7 ## 0 ## 7 ## 1 ## 7 ## sconst 0"
  let ?imgs = "[?C, ?A, ?B]"
  let ?lbls = "[unit_vector 2, unit_vector 0, unit_vector 1]"
  let ?s' = "\<lparr>rng = sconst 0,
              calls = [Exists ''root/c/images'', Listdir ''root/c/images'',
                       Open ''root/c/images/c_0.JPEG'',
                       Exists ''root/a/images'', Listdir ''root/a/images'',
                       Open ''root/a/images/a_0.JPEG'',
                       Exists ''root/b/images'', Listdir ''root/b/images'',
                       Open ''root/b/images/b_0.JPEG'']\<rparr>"
  note t5 = read_batch_labels [of 3 "start (sconst 5)" ?wn nearest fs_abc "''root''"]
  have h1: "(0::int) < 3 \<and>
      random_randint 0 199 (start (sconst 5)) = (Inr 5, \<lparr>rng = sconst 5, calls = []\<rparr>) \<and>
      int (length ?wn) \<le> 5"
    by (simp add: start_def random_randint_0_199)
  from t5 h1 have w1: "read_batch nearest fs_abc 3 ''root'' ?wn (start (sconst 5))
     = Some (Inl IndexError, \<lparr>rng = sconst 5, calls = []\<rparr>)"
    by blast
  have pre: "read_batch nearest fs_abc 1 ''root'' ?wn (start ?g2)
     = Some (Inr ([?A], [unit_vector 0]), \<lparr>rng = 3 ## sconst 0, calls = ?ca\<rparr>)"
    by (simp add: read_batch_pos start_def fs_abc_round)
  have draw: "random_randint 0 199 \<lparr>rng = 3 ## sconst 0, calls = ?ca\<rparr>
     = (Inr 3, \<lparr>rng = sconst 0, calls = ?ca\<rparr>)"
    by (simp add: random_randint_0_199)
  note t2 = read_batch_labels [of 3 "start ?g2" ?wn nearest fs_abc "''root''"]
  have h2: "(0::int) < 1 \<and> (1::int) < 3 \<and>
      read_batch nearest fs_abc 1 ''root'' ?wn (start ?g2)
        = Some (Inr ([?A], [unit_vector 0]), \<lparr>rng = 3 ## sconst 0, calls = ?ca\<rparr>) \<and>
      random_randint 0 199 \<lparr>rng = 3 ## sconst 0, calls = ?ca\<rparr>
        = (Inr 3, \<lparr>rng = sconst 0, calls = ?ca\<rparr>) \<and>
      int (length ?wn) \<le> 3"
    using pre draw by simp
  from t2 h2 have w2: "read_batch nearest fs_abc 3 ''root'' ?wn (start ?g2)
     = Some (Inl IndexError, \<lparr>rng = sconst 0, calls = ?ca\<rparr>)"
    by blast
  have run: "read_batch nearest fs_abc 3 ''root'' ?wn (start ?g3) = Some (Inr (?imgs, ?lbls), ?s')"
    by (simp add: read_batch_pos start_def batch_loop_numeral fs_abc_round)
  note t3 = read_batch_labels [of 3 "start ?g3" ?wn nearest fs_abc "''root''"]
  from t3 run have first: "\<exists>k s1. random_randint 0 199 (start ?g3) = (Inr k, s1) \<and>
      0 \<le> k \<and> k \<le> 199 \<and> k < int (length ?wn) \<and> one_hot k = Inr (?lbls ! 0)"
    by blast
  from t3 run have "\<forall>j. 0 < j \<and> j < 3 \<longrightarrow>
         (\<exists>sj k s1. read_batch nearest fs_abc j ''root'' ?wn (start ?g3)
                       = Some (Inr (take (nat j) ?imgs, take (nat j) ?lbls), sj) \<and>
            random_randint 0 199 sj = (Inr k, s1) \<and> 0 \<le> k \<and> k \<le> 199 \<and>
            k < int (length ?wn) \<and> one_hot k = Inr (?lbls ! nat j))"
    by blast
  then have "(0::int) < 2 \<and> (2::int) < 3 \<longrightarrow>
         (\<exists>sj k s1. read_batch nearest fs_abc 2 ''root'' ?wn (start ?g3)
                       = Some (Inr (take (nat 2) ?imgs, take (nat 2) ?lbls), sj) \<and>
            random_randint 0 199 sj = (Inr k, s1) \<and> 0 \<le> k \<and> k \<le> 199 \<and>
            k < int (length ?wn) \<and> one_hot k = Inr (?lbls ! nat 2))"
    by (rule spec)
  then have third: "\<exists>sj k s1. read_batch nearest fs_abc 2 ''root'' ?wn (start ?g3)
                       = Some (Inr ([?C, ?A], [unit_vector 2, unit_vector 0]), sj) \<and>
            random_randint 0 199 sj = (Inr k, s1) \<and> 0 \<le> k \<and> k \<le> 199 \<and>
            k < int (length ?wn) \<and> one_hot k = Inr (unit_vector 1)"
    by (simp add: numeral_2_eq_2)
  from t3 run
  have l: "\<forall>v \<in> set ?lbls. \<exists>i. i < 200 \<and> i < length ?wn \<and> one_hot (int i) = Inr v"
    by blast
  from l have each:
    "\<exists>i. i < 200 \<and> i < length ?wn \<and> one_hot (int i) = Inr (unit_vector 2)"
    "\<exists>i. i < 200 \<and> i < length ?wn \<and> one_hot (int i) = Inr (unit_vector 0)"
    "\<exists>i. i < 200 \<and> i < length ?wn \<and> one_hot (int i) = Inr (unit_vector 1)"
    by simp_all
  from first have first': "\<exists>k s1. random_randint 0 199 (start ?g3) = (Inr k, s1) \<and>
      0 \<le> k \<and> k \<le> 199 \<and> k < int (length ?wn) \<and> one_hot k = Inr (unit_vector 2)"
    by simp
  from w1 pre draw w2 run first' third each show ?thesis by blast
qed

text \<open>The scenario of the specification, three class identifiers and a batch of 3:
  the first draw is 5 and the call raises \<open>IndexError\<close> instead of returning labels.\<close>

theorem read_batch_index_counterexample:
  "read_batch nearest fs_abc 3 ''root'' [''a'', ''b'', ''c''] (start (sconst 5))
     = Some (Inl IndexError, \<lparr>rng = sconst 5, calls = []\<rparr>)"
  by (simp add: read_batch_pos start_def batch_loop_numeral batch_step_index_error)

text \<open>
  C3, at an input where the code does not do what the claim says: the class drawn is
  \<open>b\<close>, which has no image folder. The call does not return and raises nothing, but
  class selection is not retried: the generator stands where the draw left it, and a
  round started from there draws class \<open>d\<close> and returns its image.
\<close>

theorem read_batch_no_redraw:
  "random_randint 0 199 (start (1 ## 3 ## 1 ## sconst 0))
     = (Inr 1, \<lparr>rng = 3 ## 1 ## sconst 0, calls = []\<rparr>) \<and>
   subscript [''a'', ''b'', ''c'', ''d'', ''e''] 1 = Inr ''b'' \<and>
   fs_odd (os_path_join ''root'' (os_path_join ''b'' ''images'')) = None \<and>
   read_batch nearest fs_odd 1 ''root'' [''a'', ''b'', ''c'', ''d'', ''e'']
       (start (1 ## 3 ## 1 ## sconst 0)) = None \<and>
   batch_step nearest fs_odd ''root'' [''a'', ''b'', ''c'', ''d'', ''e'']
       \<lparr>rng = 3 ## 1 ## sconst 0, calls = []\<rparr>
     = Some (Inr (mean_subtracted nearest (flat_image (64, 64) (1, 2, 3)), unit_vector 3),
         \<lparr>rng = sconst 0,
          calls = [Exists ''root/d/images'', Listdir ''root/d/images'',
                   Open ''root/d/images/ok.png'']\<rparr>)"
proof -
  let ?wn = "[''a'', ''b'', ''c'', ''d'', ''e'']"
  let ?g = "1 ## 3 ## 1 ## sconst 0"
  have h: "random_randint 0 199 (start ?g) = (Inr 1, \<lparr>rng = 3 ## 1 ## sconst 0, calls = []\<rparr>)"
    "subscript ?wn 1 = Inr ''b''"
    "fs_odd (os_path_join ''root'' (os_path_join ''b'' ''images'')) = None"
    by (simp_all add: start_def random_randint_0_199 subscript_def fs_odd_def os_path_join_def)
  from read_batch_missing_folder [where fs = fs_odd and rs = nearest and batch_size = 1, OF h]
  have never: "read_batch nearest fs_odd 1 ''root'' ?wn (start ?g) = None"
    by simp
  have again: "batch_step nearest fs_odd ''root'' ?wn \<lparr>rng = 3 ## 1 ## sconst 0, calls = []\<rparr>
     = Some (Inr (mean_subtracted nearest (flat_image (64, 64) (1, 2, 3)), unit_vector 3),
         \<lparr>rng = sconst 0,
          calls = [Exists ''root/d/images'', Listdir ''root/d/images'',
                   Open ''root/d/images/ok.png'']\<rparr>)"
    using batch_step_accept [where fs = fs_odd and names = "[''s.png'', ''ok.png'']"
        and s = "\<lparr>rng = 3 ## 1 ## sconst 0, calls = []\<rparr>" and wnid_labels = ?wn
        and images_source = "''root''" and img = "flat_image (64, 64) (1, 2, 3)"
        and rs = nearest and b = 3]
    by (simp add: fs_odd_def os_path_join_def shape_np_array imsize_flat_image)
  from h never again show ?thesis by simp
qed

subsection \<open>The image loader\<close>

text \<open>
  C4, as the code has it: an array that \<open>read_image\<close> returns is the preprocessed form
  of an image of the folder that is 64 pixels wide and 64 high; an image of another
  size is discarded and another file is drawn. In a folder that is not empty and whose
  entries all open as images, the loop never terminates when no image has that size,
  and it returns the first three-band image of that size that a draw selects, the
  \<open>k\<close> draws before it having selected images of other sizes. An empty folder ends the
  loop at once with \<open>IndexError\<close>.
\<close>

theorem read_image_selection:
  "(\<forall>arr s'. read_image rs fs images_folder s = Some (Inr arr, s') \<longrightarrow>
      (\<exists>names name b img. fs images_folder = Some (Dir names) \<and> name \<in> set names \<and>
         fs (os_path_join images_folder name) = Some (ImageFile b img) \<and>
         imsize img = (64, 64) \<and> preprocess rs img = Inr arr)) \<and>
   (\<forall>names. fs images_folder = Some (Dir names) \<and> names \<noteq> [] \<and>
      (\<forall>name \<in> set names. \<exists>b im. fs (os_path_join images_folder name) = Some (ImageFile b im) \<and>
          imsize im \<noteq> (64, 64)) \<longrightarrow>
      read_image rs fs images_folder s = None) \<and>
   (\<forall>names k img. fs images_folder = Some (Dir names) \<and> names \<noteq> [] \<and>
      (\<forall>j<k. \<exists>b im. fs (os_path_join images_folder (names ! (snth (rng s) j mod length names)))
                     = Some (ImageFile b im) \<and> imsize im \<noteq> (64, 64)) \<and>
      fs (os_path_join images_folder (names ! (snth (rng s) k mod length names)))
        = Some (ImageFile 3 img) \<and>
      imsize img = (64, 64) \<longrightarrow>
      (\<exists>arr s'. read_image rs fs images_folder s = Some (Inr arr, s') \<and>
         preprocess rs img = Inr arr \<and> rng s' = sdrop (Suc k) (rng s))) \<and>
   (fs images_folder = Some (Dir []) \<longrightarrow>
      read_image rs fs images_folder s
        = Some (Inl IndexError, \<lparr>rng = rng s, calls = calls s @ [Listdir images_folder]\<rparr>))"
proof (intro conjI allI impI)
  fix arr s'
  assume ret: "read_image rs fs images_folder s = Some (Inr arr, s')"
  then obtain img where loop: "read_image_loop fs images_folder s = Some (Inr img, s')"
    and arr: "arr = mean_subtracted rs img"
    by (auto simp: read_image_eq split: option.splits sum.splits prod.splits)
  from read_image_loop_accepts [OF loop]
  obtain names name b where "shape (np_array img) = [64, 64, 3]"
    "fs images_folder = Some (Dir names)" "name \<in> set names"
    "fs (os_path_join images_folder name) = Some (ImageFile b img)"
    by blast
  with arr show "\<exists>names name b img. fs images_folder = Some (Dir names) \<and> name \<in> set names \<and>
         fs (os_path_join images_folder name) = Some (ImageFile b img) \<and>
         imsize img = (64, 64) \<and> preprocess rs img = Inr arr"
    by (auto simp: preprocess_eq conforming_iff)
next
  fix names
  assume h: "fs images_folder = Some (Dir names) \<and> names \<noteq> [] \<and>
      (\<forall>name \<in> set names. \<exists>b im. fs (os_path_join images_folder name) = Some (ImageFile b im) \<and>
          imsize im \<noteq> (64, 64))"
  then have "read_image_loop fs images_folder s = None"
    by (intro read_image_loop_no_conforming [where fs = fs and names = names])
       (simp_all add: conforming_iff)
  then show "read_image rs fs images_folder s = None"
    by (simp add: read_image_eq)
next
  fix names k img
  assume h: "fs images_folder = Some (Dir names) \<and> names \<noteq> [] \<and>
      (\<forall>j<k. \<exists>b im. fs (os_path_join images_folder (names ! (snth (rng s) j mod length names)))
                     = Some (ImageFile b im) \<and> imsize im \<noteq> (64, 64)) \<and>
      fs (os_path_join images_folder (names ! (snth (rng s) k mod length names)))
        = Some (ImageFile 3 img) \<and>
      imsize img = (64, 64)"
  then have "\<exists>s'. read_image_loop fs images_folder s = Some (Inr img, s') \<and>
              rng s' = sdrop (Suc k) (rng s)"
    by (intro read_image_loop_returns [where fs = fs and names = names and b = 3])
       (simp_all add: conforming_iff)
  then obtain s' where "read_image_loop fs images_folder s = Some (Inr img, s')"
    "rng s' = sdrop (Suc k) (rng s)" by blast
  then show "\<exists>arr s'. read_image rs fs images_folder s = Some (Inr arr, s') \<and>
         preprocess rs img = Inr arr \<and> rng s' = sdrop (Suc k) (rng s)"
    by (simp add: read_image_eq preprocess_eq)
next
  assume "fs images_folder = Some (Dir [])"
  then show "read_image rs fs images_folder s
        = Some (Inl IndexError, \<lparr>rng = rng s, calls = calls s @ [Listdir images_folder]\<rparr>)"
    by (simp add: read_image_eq read_image_loop_empty [where fs = fs])
qed

theorem read_image_selection_witness:
  "read_image nearest fs_abc ''root/a/images'' (start (sconst 0))
     = Some (Inr (mean_subtracted nearest (flat_image (64, 64) (200, 100, 0))),
         \<lparr>rng = sconst 0,
          calls = [Listdir ''root/a/images'', Open ''root/a/images/a_0.JPEG'']\<rparr>) \<and>
   (\<exists>names name b img. fs_abc ''root/a/images'' = Some (Dir names) \<and> name \<in> set names \<and>
      fs_abc (os_path_join ''root/a/images'' name) = Some (ImageFile b img) \<and>
      imsize img = (64, 64) \<and>
      preprocess nearest img
        = Inr (mean_subtracted nearest (flat_image (64, 64) (200, 100, 0)))) \<and>
   fs_odd ''root/c/images'' = Some (Dir [''s.png'']) \<and>
   fs_odd ''root/c/images/s.png'' = Some (ImageFile 3 (flat_image (32, 32) (9, 9, 9))) \<and>
   read_image nearest fs_odd ''root/c/images'' (start (sconst 0)) = None \<and>
   fs_odd ''root/d/images'' = Some (Dir [''s.png'', ''ok.png'']) \<and>
   fs_odd ''root/d/images/ok.png'' = Some (ImageFile 3 (flat_image (64, 64) (1, 2, 3))) \<and>
   (\<exists>arr s'. read_image nearest fs_odd ''root/d/images'' (start (0 ## 0 ## 1 ## sconst 0))
        = Some (Inr arr, s') \<and>
      preprocess nearest (flat_image (64, 64) (1, 2, 3)) = Inr arr \<and> rng s' = sconst 0) \<and>
   fs_odd ''root/a/images'' = Some (Dir []) \<and>
   read_image nearest fs_odd ''root/a/images'' (start (sconst 7))
     = Some (Inl IndexError, \<lparr>rng = sconst 7, calls = [Listdir ''root/a/images'']\<rparr>)"
proof -
  let ?A = "mean_subtracted nearest (flat_image (64, 64) (200, 100, 0))"
  let ?sA = "\<lparr>rng = sconst 0,
          calls = [Listdir ''root/a/images'', Open ''root/a/images/a_0.JPEG'']\<rparr>"
  have run: "read_image nearest fs_abc ''root/a/images'' (start (sconst 0)) = Some (Inr ?A, ?sA)"
    using read_image_loop_accept [where fs = fs_abc and images_folder = "''root/a/images''"
        and names = "[''a_0.JPEG'']" and s = "start (sconst 0)"
        and img = "flat_image (64, 64) (200, 100, 0)" and b = 3]
    by (simp add: read_image_eq fs_abc_def start_def os_path_join_def shape_np_array
        imsize_flat_image)
  note t1 = read_image_selection [of nearest fs_abc "''root/a/images''" "start (sconst 0)"]
  from t1 run have c1: "\<exists>names name b img. fs_abc ''root/a/images'' = Some (Dir names) \<and>
      name \<in> set names \<and>
      fs_abc (os_path_join ''root/a/images'' name) = Some (ImageFile b img) \<and>
      imsize img = (64, 64) \<and> preprocess nearest img = Inr ?A"
    by blast
  have f2: "fs_odd ''root/c/images/s.png'' = Some (ImageFile 3 (flat_image (32, 32) (9, 9, 9)))"
    by (simp add: fs_odd_def)
  have h2: "fs_odd ''root/c/images'' = Some (Dir [''s.png'']) \<and> [''s.png''] \<noteq> [] \<and>
      (\<forall>name \<in> set [''s.png'']. \<exists>b im. fs_odd (os_path_join ''root/c/images'' name) = Some (ImageFile b im) \<and>
          imsize im \<noteq> (64, 64))"
    by (simp add: fs_odd_def os_path_join_def imsize_flat_image)
  note t2 = read_image_selection [of nearest fs_odd "''root/c/images''" "start (sconst 0)"]
  from t2 h2 have c2: "read_image nearest fs_odd ''root/c/images'' (start (sconst 0)) = None"
    by blast
  let ?g = "0 ## 0 ## 1 ## sconst 0"
  let ?names = "[''s.png'', ''ok.png'']"
  have f3: "fs_odd ''root/d/images/ok.png'' = Some (ImageFile 3 (flat_image (64, 64) (1, 2, 3)))"
    by (simp add: fs_odd_def)
  have rej: "\<forall>j<Suc (Suc 0). \<exists>b im. fs_odd (os_path_join ''root/d/images''
        (?names ! (snth (rng (start ?g)) j mod length ?names))) = Some (ImageFile b im) \<and>
      imsize im \<noteq> (64, 64)"
    by (simp add: less_Suc_eq start_def fs_odd_def os_path_join_def imsize_flat_image)
  have h3: "fs_odd ''root/d/images'' = Some (Dir ?names) \<and> ?names \<noteq> [] \<and>
      (\<forall>j<Suc (Suc 0). \<exists>b im. fs_odd (os_path_join ''root/d/images''
        (?names ! (snth (rng (start ?g)) j mod length ?names))) = Some (ImageFile b im) \<and>
      imsize im \<noteq> (64, 64)) \<and>
      fs_odd (os_path_join ''root/d/images''
        (?names ! (snth (rng (start ?g)) (Suc (Suc 0)) mod length ?names)))
        = Some (ImageFile 3 (flat_image (64, 64) (1, 2, 3))) \<and>
      imsize (flat_image (64, 64) (1, 2, 3)) = (64, 64)"
    using rej
    by (simp add: start_def fs_odd_def os_path_join_def imsize_flat_image)
  note t3 = read_image_selection [of nearest fs_odd "''root/d/images''" "start ?g"]
  from t3 h3 have "\<exists>arr s'. read_image nearest fs_odd ''root/d/images'' (start ?g)
        = Some (Inr arr, s') \<and>
      preprocess nearest (flat_image (64, 64) (1, 2, 3)) = Inr arr \<and>
      rng s' = sdrop (Suc (Suc (Suc 0))) (rng (start ?g))"
    by blast
  then have c3: "\<exists>arr s'. read_image nearest fs_odd ''root/d/images'' (start ?g)
        = Some (Inr arr, s') \<and>
      preprocess nearest (flat_image (64, 64) (1, 2, 3)) = Inr arr \<and> rng s' = sconst 0"
    by (simp add: start_def)
  have h4: "fs_odd ''root/a/images'' = Some (Dir [])"
    by (simp add: fs_odd_def)
  note t4 = read_image_selection [of nearest fs_odd "''root/a/images''" "start (sconst 7)"]
  from t4 h4 have c4: "read_image nearest fs_odd ''root/a/images'' (start (sconst 7))
     = Some (Inl IndexError, \<lparr>rng = sconst 7, calls = [Listdir ''root/a/images'']\<rparr>)"
    by (simp add: start_def)
  from run c1 h2 f2 c2 h3 f3 c3 h4 c4 show ?thesis by blast
qed

text \<open>A folder with no conforming image, being empty, on which the loop terminates.\<close>

theorem read_image_empty_counterexample:
  "read_image nearest fs_odd ''root/a/images'' (start (sconst 0))
     = Some (Inl IndexError, \<lparr>rng = sconst 0, calls = [Listdir ''root/a/images'']\<rparr>)"
  using read_image_loop_empty [where fs = fs_odd and images_folder = "''root/a/images''"
      and s = "start (sconst 0)"]
  by (simp add: read_image_eq fs_odd_def start_def)

subsection \<open>Determinism\<close>

text \<open>
  C5: two calls of \<open>read_batch\<close> with the same batch size and class identifiers, started
  with the generator in the same state (as after seeding it with the same seed), on
  file systems that hold the same class folders under the images root, are observed
  alike: both return the same batch, or both raise the same exception, or neither
  returns, and both leave the generator in the same state. The file systems may
  differ elsewhere, and the calls made before may differ.
\<close>

theorem read_batch_deterministic:
  assumes "same_class_folders fs1 fs2 images_source wnid_labels"
    and "rng s1 = rng s2"
  shows "observed (read_batch rs fs1 batch_size images_source wnid_labels s1)
           = observed (read_batch rs fs2 batch_size images_source wnid_labels s2)"
proof (cases "0 < batch_size")
  case True
  with assms show ?thesis by (simp add: read_batch_pos batch_loop_observed)
next
  case False
  then have "batch_size \<le> 0" by simp
  with assms(2) show ?thesis by (simp add: read_batch_nonpos observed_simps)
qed

theorem read_batch_deterministic_witness:
  "same_class_folders fs_abc (fs_abc(''elsewhere'' \<mapsto> OtherFile)) ''root'' [''a'', ''b'', ''c''] \<and>
   rng (start (sconst 0)) = rng \<lparr>rng = sconst 0, calls = [Listdir ''root'']\<rparr> \<and>
   observed (read_batch nearest fs_abc 2 ''root'' [''a'', ''b'', ''c''] (start (sconst 0)))
     = Some (Inr ([mean_subtracted nearest (flat_image (64, 64) (200, 100, 0)),
                   mean_subtracted nearest (flat_image (64, 64) (200, 100, 0))],
                  [unit_vector 0, unit_vector 0]), sconst 0) \<and>
   observed (read_batch nearest (fs_abc(''elsewhere'' \<mapsto> OtherFile)) 2 ''root''
               [''a'', ''b'', ''c''] \<lparr>rng = sconst 0, calls = [Listdir ''root'']\<rparr>)
     = Some (Inr ([mean_subtracted nearest (flat_image (64, 64) (200, 100, 0)),
                   mean_subtracted nearest (flat_image (64, 64) (200, 100, 0))],
                  [unit_vector 0, unit_vector 0]), sconst 0)"
proof -
  have h1: "same_class_folders fs_abc (fs_abc(''elsewhere'' \<mapsto> OtherFile)) ''root''
      [''a'', ''b'', ''c'']"
    by (simp add: same_class_folders_def fs_abc_def os_path_join_def)
  have h2: "rng (start (sconst 0)) = rng \<lparr>rng = sconst 0, calls = [Listdir ''root'']\<rparr>"
    by (simp add: start_def)
  have run: "observed (read_batch nearest fs_abc 2 ''root'' [''a'', ''b'', ''c''] (start (sconst 0)))
     = Some (Inr ([mean_subtracted nearest (flat_image (64, 64) (200, 100, 0)),
                   mean_subtracted nearest (flat_image (64, 64) (200, 100, 0))],
                  [unit_vector 0, unit_vector 0]), sconst 0)"
    by (simp add: read_batch_pos start_def batch_loop_numeral fs_abc_round observed_simps)
  from read_batch_deterministic [OF h1 h2, of nearest 2] run h1 h2 show ?thesis
    by simp
qed

end
